theory Spec2Isabelle
  imports Main "HOL-Library.Sublist"
begin

section \<open>JavaScript values\<close>

text \<open>
  The library (\<^verbatim>\<open>src/lib/utils.ts\<close>, and \<^verbatim>\<open>lib/env.ts\<close> in \<^verbatim>\<open>src/unnamed/part_002\<close>) is
  TypeScript running on a JavaScript host. Its three working functions, \<^verbatim>\<open>env\<close>, \<^verbatim>\<open>safeStringify\<close> and
  \<^verbatim>\<open>safeArray\<close>, lean on the host's built-ins (\<^verbatim>\<open>String.prototype.trim\<close>,
  \<^verbatim>\<open>Number\<close>, \<^verbatim>\<open>JSON.parse\<close>, \<^verbatim>\<open>JSON.stringify\<close>, ...), which are modelled here
  after ECMA-262 on the following domain.

  \<^item> A string is a \<^typ>\<open>string\<close>: each \<^typ>\<open>char\<close> is one UTF-16 code unit in the range
    U+0000 .. U+00FF.
  \<^item> A number is \<open>NaN\<close>, an infinity, or a finite signed decimal
    \<open>coefficient / 10 ^ scale\<close> (so \<open>-0\<close> exists). The host rounds a decimal literal to
    the nearest IEEE double (to an infinity or to zero at the extremes); the model
    keeps the decimal exactly. Both agree on every decimal a double holds exactly
    and prints back (all integers below \<open>2 ^ 53\<close> among them). No literal rounds to
    \<open>NaN\<close>, and no branch of the library looks at a number beyond asking whether it
    is \<open>NaN\<close>, so the library takes the same branches on both.
  \<^item> A value is \<open>undefined\<close>, \<open>null\<close>, a boolean, a number, a string, an array, or a
    plain object given by its own enumerable properties in enumeration order.
    Object graphs are finite trees: cyclic graphs, \<open>BigInt\<close> (for both the host's
    serializer raises its own \<open>TypeError\<close>), functions, symbols and objects with a
    \<^verbatim>\<open>toJSON\<close> method are outside the model.
  \<^item> A call returns a value or raises an error: its result is a sum, \<open>Inl\<close> the error.
    The lines that the library writes to the console are not modelled.
\<close>

datatype jsnum =
    NaN
  | Infinity (negative: bool)
  | Finite (negative: bool) (coefficient: nat) (scale: nat)

datatype jsval =
    JUndefined
  | JNull
  | JBool bool
  | JNum jsnum
  | JStr string
  | JArr "jsval list"
  | JObj "(string \<times> jsval) list"

text \<open>The integer \<open>n\<close> as a JavaScript number.\<close>

definition int_num :: "nat \<Rightarrow> jsval" where
  "int_num n = JNum (Finite False n 0)"

text \<open>
  What a call can raise. \<^verbatim>\<open>new Error(msg)\<close> carries its message; \<open>SyntaxError\<close> is
  what \<^verbatim>\<open>JSON.parse\<close> raises.
\<close>

datatype js_error = SyntaxError | Error string

section \<open>String built-ins\<close>

definition DQ :: string where
  "DQ = [CHR 0x22]"

definition NL :: string where
  "NL = [CHR 0x0A]"

text \<open>
  \<open>WhiteSpace\<close> and \<open>LineTerminator\<close> of ECMA-262 within U+0000 .. U+00FF: TAB, LF, VT,
  FF, CR, SP and NBSP. \<^verbatim>\<open>trim\<close> and the string-to-number conversion strip these.
\<close>

definition isWhiteSpace :: "char \<Rightarrow> bool" where
  "isWhiteSpace c \<longleftrightarrow>
     c = CHR 0x09 \<or> c = CHR 0x0A \<or> c = CHR 0x0B \<or> c = CHR 0x0C \<or> c = CHR 0x0D \<or>
     c = CHR 0x20 \<or> c = CHR 0xA0"

definition trim :: "string \<Rightarrow> string" where
  "trim s = rev (dropWhile isWhiteSpace (rev (dropWhile isWhiteSpace s)))"

definition startsWith :: "string \<Rightarrow> string \<Rightarrow> bool" where
  "startsWith s p \<longleftrightarrow> take (length p) s = p"

definition endsWith :: "string \<Rightarrow> string \<Rightarrow> bool" where
  "endsWith s p \<longleftrightarrow> length p \<le> length s \<and> drop (length s - length p) s = p"

text \<open>\<^verbatim>\<open>s.includes(t)\<close>: \<open>t\<close> occurs in \<open>s\<close> as a contiguous run of code units.\<close>

fun includes_str :: "string \<Rightarrow> string \<Rightarrow> bool" where
  "includes_str [] t = (t = [])"
| "includes_str (c # cs) t = (startsWith (c # cs) t \<or> includes_str cs t)"

text \<open>
  \<^verbatim>\<open>toLowerCase\<close> on U+0000 .. U+00FF: \<open>A\<close> .. \<open>Z\<close> and the Latin-1 capitals
  U+00C0 .. U+00DE (but the multiplication sign U+00D7) move up by 32.
\<close>

definition isUpperCase :: "char \<Rightarrow> bool" where
  "isUpperCase c \<longleftrightarrow>
     (let n = (of_char c :: nat)
      in (65 \<le> n \<and> n \<le> 90) \<or> (192 \<le> n \<and> n \<le> 222 \<and> n \<noteq> 215))"

definition toLowerChar :: "char \<Rightarrow> char" where
  "toLowerChar c = (if isUpperCase c then char_of (of_char c + (32 :: nat)) else c)"

definition toLowerCase :: "string \<Rightarrow> string" where
  "toLowerCase s = map toLowerChar s"

text \<open>
  \<^verbatim>\<open>s.split(sep)\<close> for a one-character separator: the pieces between the
  separators, in order; \<open>n\<close> separators give \<open>n + 1\<close> pieces, empty ones included.
\<close>

fun split_on :: "char \<Rightarrow> string \<Rightarrow> string list" where
  "split_on sep [] = [[]]"
| "split_on sep (c # cs) =
     (if c = sep then [] # split_on sep cs
      else (c # hd (split_on sep cs)) # tl (split_on sep cs))"

text \<open>\<^verbatim>\<open>pieces.join(sep)\<close>, used to say what \<open>split_on\<close> computes.\<close>

fun join :: "string \<Rightarrow> string list \<Rightarrow> string" where
  "join sep [] = []"
| "join sep [p] = p"
| "join sep (p # q # ps) = p @ sep @ join sep (q # ps)"

section \<open>Numbers\<close>

definition isDigit :: "char \<Rightarrow> bool" where
  "isDigit c \<longleftrightarrow> (let n = (of_char c :: nat) in 48 \<le> n \<and> n \<le> 57)"

text \<open>The value of a digit in radix 16 (and so in radix 2, 8 and 10), if it is one.\<close>

definition digitValue :: "char \<Rightarrow> nat option" where
  "digitValue c =
     (let n = (of_char c :: nat)
      in if 48 \<le> n \<and> n \<le> 57 then Some (n - 48)
         else if 97 \<le> n \<and> n \<le> 102 then Some (n - 87)
         else if 65 \<le> n \<and> n \<le> 70 then Some (n - 55)
         else None)"

definition isRadixDigit :: "nat \<Rightarrow> char \<Rightarrow> bool" where
  "isRadixDigit radix c \<longleftrightarrow> (case digitValue c of Some d \<Rightarrow> d < radix | None \<Rightarrow> False)"

text \<open>The mathematical value of a run of digits, most significant first.\<close>

definition digitsValue :: "nat \<Rightarrow> string \<Rightarrow> nat" where
  "digitsValue radix ds = foldl (\<lambda>a c. radix * a + the (digitValue c)) 0 ds"

text \<open>
  The number \<open>\<plusminus> c * 10 ^ e\<close> in the representation of \<^typ>\<open>jsnum\<close>: an integer has
  scale \<open>0\<close>, and a fraction the least scale that holds it, so that equal numbers
  are equal terms.
\<close>

fun reduceScale :: "bool \<Rightarrow> nat \<Rightarrow> nat \<Rightarrow> jsnum" where
  "reduceScale neg c 0 = Finite neg c 0"
| "reduceScale neg c (Suc k) =
     (if c mod 10 = 0 then reduceScale neg (c div 10) k else Finite neg c (Suc k))"

definition mkFinite :: "bool \<Rightarrow> nat \<Rightarrow> int \<Rightarrow> jsnum" where
  "mkFinite neg c e =
     (if 0 \<le> e then Finite neg (c * 10 ^ nat e) 0 else reduceScale neg c (nat (- e)))"

text \<open>
  \<open>SignedInteger\<close> of the numeric-string grammar: an optional sign and at least one
  decimal digit, up to the end of the string.
\<close>

definition unsignedInteger :: "string \<Rightarrow> nat option" where
  "unsignedInteger ds =
     (if ds \<noteq> [] \<and> list_all isDigit ds then Some (digitsValue 10 ds) else None)"

definition signedInteger :: "string \<Rightarrow> int option" where
  "signedInteger s =
     (case s of
        [] \<Rightarrow> None
      | c # ds \<Rightarrow>
          if c = CHR ''+'' then map_option int (unsignedInteger ds)
          else if c = CHR ''-'' then map_option (\<lambda>n. - int n) (unsignedInteger ds)
          else map_option int (unsignedInteger s))"

text \<open>The optional \<open>ExponentPart\<close> up to the end of the string: absent, or \<open>e\<close>/\<open>E\<close> and a signed integer.\<close>

definition exponentPart :: "string \<Rightarrow> int option" where
  "exponentPart s =
     (case s of
        [] \<Rightarrow> Some 0
      | c # r \<Rightarrow> if c = CHR ''e'' \<or> c = CHR ''E'' then signedInteger r else None)"

text \<open>
  \<open>StrUnsignedDecimalLiteral\<close>: \<open>Infinity\<close>, or digits with an optional fraction and
  exponent, with a digit on at least one side of the point. A string outside the
  grammar converts to \<open>NaN\<close>.
\<close>

definition StrUnsignedDecimalLiteral :: "bool \<Rightarrow> string \<Rightarrow> jsnum" where
  "StrUnsignedDecimalLiteral neg u =
     (if u = ''Infinity'' then Infinity neg
      else
        let ip = takeWhile isDigit u;
            r1 = dropWhile isDigit u;
            hasPoint = (r1 \<noteq> [] \<and> hd r1 = CHR ''.'');
            fp = (if hasPoint then takeWhile isDigit (tl r1) else []);
            r2 = (if hasPoint then dropWhile isDigit (tl r1) else r1)
        in if ip = [] \<and> fp = [] then NaN
           else (case exponentPart r2 of
                   None \<Rightarrow> NaN
                 | Some e \<Rightarrow> mkFinite neg (digitsValue 10 (ip @ fp)) (e - int (length fp))))"

text \<open>\<open>NonDecimalIntegerLiteral\<close> after its \<open>0x\<close>, \<open>0o\<close> or \<open>0b\<close>: at least one digit of the radix.\<close>

definition radixLiteral :: "nat \<Rightarrow> string \<Rightarrow> jsnum" where
  "radixLiteral radix ds =
     (if ds \<noteq> [] \<and> list_all (isRadixDigit radix) ds then Finite False (digitsValue radix ds) 0
      else NaN)"

text \<open>
  \<^verbatim>\<open>Number(str)\<close> on a string (\<open>StringToNumber\<close>): white space is stripped from both
  ends; the empty rest is \<open>+0\<close>; a signed decimal literal, or an unsigned binary,
  octal or hexadecimal integer literal, is its value; everything else is \<open>NaN\<close>.
\<close>

definition StringToNumber :: "string \<Rightarrow> jsnum" where
  "StringToNumber str =
     (let t = trim str
      in case t of
           [] \<Rightarrow> Finite False 0 0
         | c # r \<Rightarrow>
             if c = CHR ''+'' then StrUnsignedDecimalLiteral False r
             else if c = CHR ''-'' then StrUnsignedDecimalLiteral True r
             else if c = CHR ''0'' \<and> r \<noteq> [] \<and> (hd r = CHR ''x'' \<or> hd r = CHR ''X'')
               then radixLiteral 16 (tl r)
             else if c = CHR ''0'' \<and> r \<noteq> [] \<and> (hd r = CHR ''o'' \<or> hd r = CHR ''O'')
               then radixLiteral 8 (tl r)
             else if c = CHR ''0'' \<and> r \<noteq> [] \<and> (hd r = CHR ''b'' \<or> hd r = CHR ''B'')
               then radixLiteral 2 (tl r)
             else StrUnsignedDecimalLiteral False t)"

definition isNaN :: "jsnum \<Rightarrow> bool" where
  "isNaN n \<longleftrightarrow> n = NaN"

definition isFiniteNumber :: "jsnum \<Rightarrow> bool" where
  "isFiniteNumber n \<longleftrightarrow> (case n of Finite neg c sc \<Rightarrow> True | _ \<Rightarrow> False)"

text \<open>\<open>ToString\<close> of a non-negative integer: its decimal digits.\<close>

definition digitChar :: "nat \<Rightarrow> char" where
  "digitChar d = ''0123456789'' ! d"

function natToString :: "nat \<Rightarrow> string" where
  "natToString n = (if n < 10 then [digitChar n] else natToString (n div 10) @ [digitChar (n mod 10)])"
  by pat_completeness auto

termination
  by (relation "measure id") auto

declare natToString.simps [simp del]

text \<open>
  \<open>Number::toString\<close> in radix 10. For a finite non-zero number ECMA-262 takes the
  digits \<open>s\<close> (\<open>k\<close> of them, no trailing zero) and the exponent \<open>n\<close> with value
  \<open>s * 10 ^ (n - k)\<close>, and prints plain digits, a decimal point, leading zeros or the
  exponent form by the size of \<open>n\<close>.
\<close>

definition stripTrailingZeros :: "string \<Rightarrow> string" where
  "stripTrailingZeros ds = rev (dropWhile (\<lambda>c. c = CHR ''0'') (rev ds))"

definition NumberToString :: "jsnum \<Rightarrow> string" where
  "NumberToString x =
     (case x of
        NaN \<Rightarrow> ''NaN''
      | Infinity neg \<Rightarrow> (if neg then ''-Infinity'' else ''Infinity'')
      | Finite neg c sc \<Rightarrow>
          if c = 0 then ''0''
          else
            let digits = natToString c;
                s = stripTrailingZeros digits;
                k = int (length s);
                n = int (length digits) - int sc;
                body =
                  (if k \<le> n \<and> n \<le> 21 then s @ replicate (nat (n - k)) (CHR ''0'')
                   else if 0 < n \<and> n \<le> 21 then take (nat n) s @ ''.'' @ drop (nat n) s
                   else if - 6 < n \<and> n \<le> 0 then ''0.'' @ replicate (nat (- n)) (CHR ''0'') @ s
                   else
                     (if k = 1 then s else hd s # ''.'' @ tl s) @ ''e'' @
                     (if 0 \<le> n - 1 then ''+'' else ''-'') @ natToString (nat \<bar>n - 1\<bar>))
            in (if neg then ''-'' else []) @ body)"

section \<open>\<^verbatim>\<open>JSON.parse\<close>\<close>

text \<open>
  \<^verbatim>\<open>JSON.parse\<close> is modelled in two passes, the tokens of the text and then the
  grammar over the tokens. The host raises the same \<open>SyntaxError\<close> for every text
  that is not JSON, so the pass in which a text is refused does not show.
\<close>

datatype token =
    TLBrace | TRBrace | TLBrack | TRBrack | TColon | TComma
  | TString string | TNumber jsnum | TTrue | TFalse | TNull

definition isJSONWhiteSpace :: "char \<Rightarrow> bool" where
  "isJSONWhiteSpace c \<longleftrightarrow> c = CHR 0x09 \<or> c = CHR 0x0A \<or> c = CHR 0x0D \<or> c = CHR 0x20"

definition unescape :: "char \<Rightarrow> char option" where
  "unescape e =
     (if e = CHR 0x22 then Some (CHR 0x22)
      else if e = CHR 0x5C then Some (CHR 0x5C)
      else if e = CHR ''/'' then Some (CHR ''/'')
      else if e = CHR ''b'' then Some (CHR 0x08)
      else if e = CHR ''f'' then Some (CHR 0x0C)
      else if e = CHR ''n'' then Some (CHR 0x0A)
      else if e = CHR ''r'' then Some (CHR 0x0D)
      else if e = CHR ''t'' then Some (CHR 0x09)
      else None)"

definition consChar :: "char \<Rightarrow> (string \<times> string) option \<Rightarrow> (string \<times> string) option" where
  "consChar c r = map_option (\<lambda>(s, rest). (c # s, rest)) r"

text \<open>
  The rest of a JSON string after its opening quote: the characters up to the
  closing quote, and the text after it. A control character below U+0020 is not
  allowed unescaped; a backslash starts one of the eight short escapes or a
  \<open>u\<close> escape of four hexadecimal digits. A \<open>u\<close> escape above U+00FF names a code
  unit outside the strings modelled here and is kept by its low byte; the parse
  succeeds or fails as on the host.
\<close>

fun lexString :: "string \<Rightarrow> (string \<times> string) option" where
  "lexString [] = None"
| "lexString (c # cs) =
     (if c = CHR 0x22 then Some ([], cs)
      else if c = CHR 0x5C then
        (case cs of
           [] \<Rightarrow> None
         | e # r \<Rightarrow>
             if e = CHR ''u'' then
               (if 4 \<le> length r \<and> list_all (isRadixDigit 16) (take 4 r)
                then consChar (char_of (digitsValue 16 (take 4 r))) (lexString (drop 4 r))
                else None)
             else (case unescape e of
                     None \<Rightarrow> None
                   | Some ch \<Rightarrow> consChar ch (lexString r)))
      else if (of_char c :: nat) < 32 then None
      else consChar c (lexString cs))"

text \<open>
  A JSON number at the head of the text: an optional \<open>-\<close>, an integer part without a
  superfluous leading zero, an optional fraction and an optional exponent, each
  with at least one digit.
\<close>

definition lexInteger :: "string \<Rightarrow> (string \<times> string) option" where
  "lexInteger u =
     (let ip = takeWhile isDigit u
      in if ip = [] \<or> (hd ip = CHR ''0'' \<and> tl ip \<noteq> []) then None
         else Some (ip, dropWhile isDigit u))"

definition lexFraction :: "string \<Rightarrow> (string \<times> string) option" where
  "lexFraction r =
     (if r \<noteq> [] \<and> hd r = CHR ''.'' then
        (if takeWhile isDigit (tl r) = [] then None
         else Some (takeWhile isDigit (tl r), dropWhile isDigit (tl r)))
      else Some ([], r))"

definition lexExponent :: "string \<Rightarrow> (int \<times> string) option" where
  "lexExponent r =
     (if r \<noteq> [] \<and> (hd r = CHR ''e'' \<or> hd r = CHR ''E'') then
        (let neg = (tl r \<noteq> [] \<and> hd (tl r) = CHR ''-'');
             pos = (tl r \<noteq> [] \<and> hd (tl r) = CHR ''+'');
             ds = (if neg \<or> pos then tl (tl r) else tl r);
             ep = takeWhile isDigit ds
         in if ep = [] then None
            else Some (if neg then - int (digitsValue 10 ep) else int (digitsValue 10 ep),
                       dropWhile isDigit ds))
      else Some (0, r))"

definition lexNumber :: "string \<Rightarrow> (jsnum \<times> string) option" where
  "lexNumber s =
     (let neg = (s \<noteq> [] \<and> hd s = CHR ''-'');
          u = (if neg then tl s else s)
      in case lexInteger u of
           None \<Rightarrow> None
         | Some (ip, r1) \<Rightarrow>
             (case lexFraction r1 of
                None \<Rightarrow> None
              | Some (fp, r2) \<Rightarrow>
                  (case lexExponent r2 of
                     None \<Rightarrow> None
                   | Some (e, r3) \<Rightarrow>
                       Some (mkFinite neg (digitsValue 10 (ip @ fp)) (e - int (length fp)), r3))))"

lemma lexString_length: "lexString s = Some (str, rest) \<Longrightarrow> length rest < length s"
proof (induction s arbitrary: str rest rule: lexString.induct)
  case 1
  then show ?case by simp
next
  case (2 c cs)
  show ?case
  proof (cases "c = CHR 0x22")
    case True
    then show ?thesis using "2.prems" by simp
  next
    case nq: False
    show ?thesis
    proof (cases "c = CHR 0x5C")
      case True
      show ?thesis
      proof (cases cs)
        case Nil
        then show ?thesis using "2.prems" nq True by simp
      next
        case (Cons e r)
        show ?thesis
        proof (cases "e = CHR ''u''")
          case u: True
          from "2.prems" nq True Cons u
          obtain s' where ok: "4 \<le> length r" "list_all (isRadixDigit 16) (take 4 r)"
            and s': "lexString (drop 4 r) = Some (s', rest)"
            by (auto simp: consChar_def split: if_splits)
          have "length rest < length (drop 4 r)"
            using "2.IH"(1) [OF nq True Cons u _ s'] ok by simp
          then show ?thesis using Cons by simp
        next
          case nu: False
          from "2.prems" nq True Cons nu
          obtain ch s' where ch: "unescape e = Some ch"
            and s': "lexString r = Some (s', rest)"
            by (auto simp: consChar_def split: option.splits)
          have "length rest < length r"
            using "2.IH"(2) [OF nq True Cons nu ch s'] .
          then show ?thesis using Cons by simp
        qed
      qed
    next
      case nb: False
      from "2.prems" nq nb obtain s' where lo: "\<not> (of_char c :: nat) < 32"
        and s': "lexString cs = Some (s', rest)"
        by (auto simp: consChar_def split: if_splits)
      have "length rest < length cs"
        using "2.IH"(3) [OF nq nb lo s'] .
      then show ?thesis by simp
    qed
  qed
qed

lemma length_dropWhile_less: "takeWhile P xs \<noteq> [] \<Longrightarrow> length (dropWhile P xs) < length xs"
  by (cases xs) (auto simp: le_imp_less_Suc length_dropWhile_le split: if_splits)

lemma lexInteger_length: "lexInteger u = Some (ip, r) \<Longrightarrow> length r < length u"
  by (auto simp: lexInteger_def Let_def length_dropWhile_less split: if_splits)

lemma lexFraction_length: "lexFraction r = Some (fp, r') \<Longrightarrow> length r' \<le> length r"
proof -
  assume a: "lexFraction r = Some (fp, r')"
  have "length (dropWhile isDigit (tl r)) \<le> length r"
    using length_dropWhile_le [of isDigit "tl r"] by simp
  then show ?thesis
    using a by (auto simp: lexFraction_def split: if_splits)
qed

lemma lexExponent_length: "lexExponent r = Some (e, r') \<Longrightarrow> length r' \<le> length r"
proof -
  assume a: "lexExponent r = Some (e, r')"
  have "length (dropWhile isDigit (tl (tl r))) \<le> length r"
    using length_dropWhile_le [of isDigit "tl (tl r)"] by simp
  moreover have "length (dropWhile isDigit (tl r)) \<le> length r"
    using length_dropWhile_le [of isDigit "tl r"] by simp
  ultimately show ?thesis
    using a by (auto simp: lexExponent_def Let_def split: if_splits)
qed

lemma lexNumber_length:
  assumes "lexNumber s = Some (n, rest)"
  shows "length rest < length s"
proof -
  define u where "u = (if s \<noteq> [] \<and> hd s = CHR ''-'' then tl s else s)"
  from assms obtain ip r1 fp r2 e where
    i: "lexInteger u = Some (ip, r1)" and f: "lexFraction r1 = Some (fp, r2)"
    and x: "lexExponent r2 = Some (e, rest)"
    unfolding lexNumber_def Let_def u_def by (auto split: option.splits)
  have "length u \<le> length s" unfolding u_def by simp
  then show ?thesis
    using lexInteger_length [OF i] lexFraction_length [OF f] lexExponent_length [OF x] by simp
qed

text \<open>
  The tokens of a JSON text, or nothing when some character starts no token.
\<close>

function tokenize :: "string \<Rightarrow> token list option" where
  "tokenize [] = Some []"
| "tokenize (c # cs) =
     (if isJSONWhiteSpace c then tokenize cs
      else if c = CHR ''{'' then map_option (Cons TLBrace) (tokenize cs)
      else if c = CHR ''}'' then map_option (Cons TRBrace) (tokenize cs)
      else if c = CHR ''['' then map_option (Cons TLBrack) (tokenize cs)
      else if c = CHR '']'' then map_option (Cons TRBrack) (tokenize cs)
      else if c = CHR '':'' then map_option (Cons TColon) (tokenize cs)
      else if c = CHR '','' then map_option (Cons TComma) (tokenize cs)
      else if c = CHR 0x22 then
        (case lexString cs of
           None \<Rightarrow> None
         | Some (str, rest) \<Rightarrow> map_option (Cons (TString str)) (tokenize rest))
      else if c = CHR ''-'' \<or> isDigit c then
        (case lexNumber (c # cs) of
           None \<Rightarrow> None
         | Some (n, rest) \<Rightarrow> map_option (Cons (TNumber n)) (tokenize rest))
      else if startsWith (c # cs) ''true'' then map_option (Cons TTrue) (tokenize (drop 4 (c # cs)))
      else if startsWith (c # cs) ''false'' then map_option (Cons TFalse) (tokenize (drop 5 (c # cs)))
      else if startsWith (c # cs) ''null'' then map_option (Cons TNull) (tokenize (drop 4 (c # cs)))
      else None)"
  by pat_completeness auto

termination
proof (relation "measure length", goal_cases)
  case 1
  show ?case by simp
next
  case (9 c cs x2 x y)
  then have "lexString cs = Some (x, y)" by simp
  from lexString_length [OF this] show ?case by simp
next
  case (10 c cs x2 x y)
  then have "lexNumber (c # cs) = Some (x, y)" by simp
  from lexNumber_length [OF this] show ?case by simp
qed simp_all

text \<open>
  The properties of an ordinary object are enumerated with the array indices
  first, in ascending order, and then the other keys in the order of their
  creation. \<open>createDataProperty\<close> defines a property on such a list: an existing key
  keeps its place and takes the new value.
\<close>

definition isArrayIndex :: "string \<Rightarrow> bool" where
  "isArrayIndex k \<longleftrightarrow>
     k \<noteq> [] \<and> list_all isDigit k \<and> (hd k \<noteq> CHR ''0'' \<or> tl k = []) \<and>
     digitsValue 10 k < 4294967295"

fun insertIndexed :: "string \<Rightarrow> jsval \<Rightarrow> (string \<times> jsval) list \<Rightarrow> (string \<times> jsval) list" where
  "insertIndexed k v [] = [(k, v)]"
| "insertIndexed k v ((k', v') # ps) =
     (if isArrayIndex k' \<and> digitsValue 10 k' < digitsValue 10 k
      then (k', v') # insertIndexed k v ps
      else (k, v) # (k', v') # ps)"

definition createDataProperty ::
  "(string \<times> jsval) list \<Rightarrow> string \<Rightarrow> jsval \<Rightarrow> (string \<times> jsval) list" where
  "createDataProperty props k v =
     (if map_of props k \<noteq> None
      then map (\<lambda>(k', v'). if k' = k then (k', v) else (k', v')) props
      else if isArrayIndex k then insertIndexed k v props
      else props @ [(k, v)])"

definition objectOf :: "(string \<times> jsval) list \<Rightarrow> jsval" where
  "objectOf members = JObj (foldl (\<lambda>props (k, v). createDataProperty props k v) [] members)"

text \<open>
  The JSON grammar over tokens, by recursive descent. \<open>parseValue\<close> reads one value
  and returns it with the tokens that follow; \<open>parseElements\<close> reads the elements
  of a non-empty array up to its \<open>]\<close>, \<open>parseMembers\<close> the members of a non-empty
  object up to its \<open>}\<close>. The comparison of lengths before the recursive call on
  the rest is what the termination proof uses; \<open>parseValue_length\<close> shows that it
  always holds.
\<close>

function (sequential) parseValue :: "token list \<Rightarrow> (jsval \<times> token list) option"
  and parseElements :: "token list \<Rightarrow> (jsval list \<times> token list) option"
  and parseMembers :: "token list \<Rightarrow> ((string \<times> jsval) list \<times> token list) option"
where
  "parseValue [] = None"
| "parseValue (TString s # ts) = Some (JStr s, ts)"
| "parseValue (TNumber n # ts) = Some (JNum n, ts)"
| "parseValue (TTrue # ts) = Some (JBool True, ts)"
| "parseValue (TFalse # ts) = Some (JBool False, ts)"
| "parseValue (TNull # ts) = Some (JNull, ts)"
| "parseValue (TLBrack # TRBrack # ts) = Some (JArr [], ts)"
| "parseValue (TLBrack # ts) =
     (case parseElements ts of
        None \<Rightarrow> None
      | Some (vs, rest) \<Rightarrow> Some (JArr vs, rest))"
| "parseValue (TLBrace # TRBrace # ts) = Some (JObj [], ts)"
| "parseValue (TLBrace # ts) =
     (case parseMembers ts of
        None \<Rightarrow> None
      | Some (ms, rest) \<Rightarrow> Some (objectOf ms, rest))"
| "parseValue (t # ts) = None"
| "parseElements ts =
     (case parseValue ts of
        None \<Rightarrow> None
      | Some (v, rest) \<Rightarrow>
          (case rest of
             TComma # rest' \<Rightarrow>
               (if length rest' < length ts then
                  (case parseElements rest' of
                     None \<Rightarrow> None
                   | Some (vs, rest'') \<Rightarrow> Some (v # vs, rest''))
                else None)
           | TRBrack # rest' \<Rightarrow> Some ([v], rest')
           | _ \<Rightarrow> None))"
| "parseMembers (TString k # TColon # ts) =
     (case parseValue ts of
        None \<Rightarrow> None
      | Some (v, rest) \<Rightarrow>
          (case rest of
             TComma # rest' \<Rightarrow>
               (if length rest' < length ts then
                  (case parseMembers rest' of
                     None \<Rightarrow> None
                   | Some (ms, rest'') \<Rightarrow> Some ((k, v) # ms, rest''))
                else None)
           | TRBrace # rest' \<Rightarrow> Some ([(k, v)], rest')
           | _ \<Rightarrow> None))"
| "parseMembers ts = None"
  by pat_completeness auto

termination
  by (relation "measure (\<lambda>x. case x of
          Inl ts \<Rightarrow> 2 * length ts
        | Inr (Inl ts) \<Rightarrow> 2 * length ts + 1
        | Inr (Inr ts) \<Rightarrow> 2 * length ts + 1)") auto

text \<open>
  \<^verbatim>\<open>JSON.parse(text)\<close> without a reviver: the value of a text that is one JSON value
  and nothing more, and \<open>SyntaxError\<close> for every other text.
\<close>

definition JSON_parse :: "string \<Rightarrow> js_error + jsval" where
  "JSON_parse text =
     (case tokenize text of
        None \<Rightarrow> Inl SyntaxError
      | Some ts \<Rightarrow>
          (case parseValue ts of
             Some (v, []) \<Rightarrow> Inr v
           | _ \<Rightarrow> Inl SyntaxError))"

declare parseElements.simps [simp del]

section \<open>\<^verbatim>\<open>JSON.stringify\<close>\<close>

text \<open>
  \<open>QuoteJSONString\<close>: the string between double quotes, with the double quote, the
  backslash and the control characters escaped (the short escapes where JSON has
  them, a \<open>u00XX\<close> escape in lower-case hexadecimal otherwise).
\<close>

definition hexDigitChar :: "nat \<Rightarrow> char" where
  "hexDigitChar d = ''0123456789abcdef'' ! d"

definition quoteChar :: "char \<Rightarrow> string" where
  "quoteChar c =
     (if c = CHR 0x08 then [CHR 0x5C, CHR ''b'']
      else if c = CHR 0x09 then [CHR 0x5C, CHR ''t'']
      else if c = CHR 0x0A then [CHR 0x5C, CHR ''n'']
      else if c = CHR 0x0C then [CHR 0x5C, CHR ''f'']
      else if c = CHR 0x0D then [CHR 0x5C, CHR ''r'']
      else if c = CHR 0x22 then [CHR 0x5C, CHR 0x22]
      else if c = CHR 0x5C then [CHR 0x5C, CHR 0x5C]
      else if (of_char c :: nat) < 32 then
        [CHR 0x5C, CHR ''u'', CHR ''0'', CHR ''0'',
         hexDigitChar ((of_char c :: nat) div 16), hexDigitChar ((of_char c :: nat) mod 16)]
      else [c])"

definition QuoteJSONString :: "string \<Rightarrow> string" where
  "QuoteJSONString s = DQ @ concat (map quoteChar s) @ DQ"

text \<open>
  The replacer that \<^verbatim>\<open>safeStringify\<close> hands to \<^verbatim>\<open>JSON.stringify\<close>, with the
  \<^verbatim>\<open>redactedWord\<close> it closes over (\<open>None\<close> when the argument is \<open>undefined\<close>):
  \<^verbatim>\<open>key.includes('SECRET') || key.includes('PASSWORD') ||
  (redactedWord && key.includes(redactedWord))\<close> returns the marker, and every other
  key returns its value. \<^verbatim>\<open>redactedWord && ...\<close> holds for a non-empty string only.
\<close>

definition replacer :: "string option \<Rightarrow> string \<Rightarrow> jsval \<Rightarrow> jsval" where
  "replacer redactedWord key value =
     (if includes_str key ''SECRET'' \<or> includes_str key ''PASSWORD'' \<or>
         (case redactedWord of None \<Rightarrow> False | Some w \<Rightarrow> w \<noteq> [] \<and> includes_str key w)
      then JStr ''[REDACTED]''
      else value)"

text \<open>
  The \<open>ReplacerFunction\<close> of a serialization: none (the call
  \<^verbatim>\<open>JSON.stringify(value, null, space)\<close>), or the replacer above.
\<close>

datatype replacer_function = NoReplacer | RedactingReplacer "string option"

fun callReplacer :: "replacer_function \<Rightarrow> string \<Rightarrow> jsval \<Rightarrow> jsval" where
  "callReplacer NoReplacer key value = value"
| "callReplacer (RedactingReplacer redactedWord) key value = replacer redactedWord key value"

text \<open>
  The text of an array or object from the texts of its parts (\<open>partial\<close>): the empty
  brackets for no part; without a gap, the parts between commas; with a gap, one
  part per line, each after the new indentation, and the closing bracket on a line
  of its own after the old indentation (\<open>stepback\<close>).
\<close>

definition wrapJSON :: "string \<Rightarrow> string \<Rightarrow> string \<Rightarrow> string \<Rightarrow> string list \<Rightarrow> string" where
  "wrapJSON opening closing gap stepback partial =
     (if partial = [] then opening @ closing
      else if gap = [] then opening @ join '','' partial @ closing
      else opening @ NL @ (stepback @ gap) @ join ('','' @ NL @ (stepback @ gap)) partial @
           NL @ stepback @ closing)"

lemma callReplacer_JArr: "callReplacer rf key v = JArr xs \<Longrightarrow> v = JArr xs"
  by (cases rf) (auto simp: replacer_def split: if_splits)

lemma callReplacer_JObj: "callReplacer rf key v = JObj kvs \<Longrightarrow> v = JObj kvs"
  by (cases rf) (auto simp: replacer_def split: if_splits)

text \<open>
  \<open>SerializeJSONProperty\<close>, \<open>SerializeJSONArray\<close> and \<open>SerializeJSONObject\<close> of
  ECMA-262. The value of the property is handed to the replacer with its key, and
  what the replacer returns is serialized: \<open>undefined\<close> has no text; \<open>null\<close>,
  booleans and strings have theirs; a finite number prints as \<open>Number::toString\<close>
  and any other number as \<open>null\<close>; an array serializes each element under its
  index as key (\<open>null\<close> for an element without text), an object each property
  under its name (a property without text is left out), both one level deeper.
\<close>

function SerializeJSONProperty ::
    "replacer_function \<Rightarrow> string \<Rightarrow> string \<Rightarrow> string \<Rightarrow> jsval \<Rightarrow> string option"
  and SerializeJSONElements ::
    "replacer_function \<Rightarrow> string \<Rightarrow> string \<Rightarrow> nat \<Rightarrow> jsval list \<Rightarrow> string list"
  and SerializeJSONMembers ::
    "replacer_function \<Rightarrow> string \<Rightarrow> string \<Rightarrow> (string \<times> jsval) list \<Rightarrow> string list"
where
  "SerializeJSONProperty rf gap indent key holderValue =
     (case callReplacer rf key holderValue of
        JUndefined \<Rightarrow> None
      | JNull \<Rightarrow> Some ''null''
      | JBool b \<Rightarrow> Some (if b then ''true'' else ''false'')
      | JNum n \<Rightarrow> Some (if isFiniteNumber n then NumberToString n else ''null'')
      | JStr s \<Rightarrow> Some (QuoteJSONString s)
      | JArr xs \<Rightarrow>
          Some (wrapJSON ''['' '']'' gap indent (SerializeJSONElements rf gap (indent @ gap) 0 xs))
      | JObj kvs \<Rightarrow>
          Some (wrapJSON ''{'' ''}'' gap indent (SerializeJSONMembers rf gap (indent @ gap) kvs)))"
| "SerializeJSONElements rf gap indent i [] = []"
| "SerializeJSONElements rf gap indent i (x # xs) =
     (case SerializeJSONProperty rf gap indent (natToString i) x of
        None \<Rightarrow> ''null''
      | Some t \<Rightarrow> t) # SerializeJSONElements rf gap indent (Suc i) xs"
| "SerializeJSONMembers rf gap indent [] = []"
| "SerializeJSONMembers rf gap indent ((k, x) # kvs) =
     (case SerializeJSONProperty rf gap indent k x of
        None \<Rightarrow> []
      | Some t \<Rightarrow> [QuoteJSONString k @ '':'' @ (if gap = [] then [] else '' '') @ t]) @
     SerializeJSONMembers rf gap indent kvs"
  by pat_completeness auto

termination
proof (relation "measure (\<lambda>x. case x of
          Inl (rf, gap, indent, key, v) \<Rightarrow> size v
        | Inr (Inl (rf, gap, indent, i, xs)) \<Rightarrow> size_list size xs
        | Inr (Inr (rf, gap, indent, kvs)) \<Rightarrow> size_list (size_prod (\<lambda>k. 0) size) kvs)",
    goal_cases)
  case 1
  show ?case by simp
next
  case (2 rf gap indent key holderValue xs)
  then show ?case by (auto dest: callReplacer_JArr)
next
  case (3 rf gap indent key holderValue kvs)
  then show ?case by (auto dest: callReplacer_JObj)
qed auto

declare SerializeJSONProperty.simps [simp del]

text \<open>
  \<^verbatim>\<open>JSON.stringify(value, replacer, space)\<close> for a number \<open>space\<close>: the gap is that
  many spaces, ten at most, and the value is serialized as the property \<open>""\<close> of a
  wrapper object, with no indentation yet. The result is \<open>None\<close> where the host
  returns \<open>undefined\<close>.
\<close>

definition JSON_stringify :: "jsval \<Rightarrow> replacer_function \<Rightarrow> nat \<Rightarrow> string option" where
  "JSON_stringify value rf space =
     SerializeJSONProperty rf (replicate (min 10 space) (CHR '' '')) [] [] value"

section \<open>\<^verbatim>\<open>src/lib/utils.ts\<close>: \<^verbatim>\<open>isBoolean\<close>, \<^verbatim>\<open>safeStringify\<close> and \<^verbatim>\<open>safeArray\<close>\<close>

text \<open>
  \<^verbatim>\<open>isBoolean(value)\<close>: a boolean is returned as it is, a string is compared with
  \<open>true\<close> after lower-casing, everything else is \<open>false\<close>.
\<close>

fun isBoolean :: "jsval \<Rightarrow> bool" where
  "isBoolean (JBool b) = b"
| "isBoolean (JStr s) = (toLowerCase s = ''true'')"
| "isBoolean _ = False"

text \<open>
  \<^verbatim>\<open>safeStringify(obj, redactedWord)\<close>: a \<^verbatim>\<open>redactedWord\<close> that is not \<open>undefined\<close>
  and is not a string, or is blank after trimming, raises before anything is
  serialized; otherwise the result is that of \<^verbatim>\<open>JSON.stringify(obj, replacer, 2)\<close>.
\<close>

definition safeStringify :: "jsval \<Rightarrow> jsval \<Rightarrow> js_error + string option" where
  "safeStringify obj redactedWord =
     (if redactedWord \<noteq> JUndefined \<and>
         (case redactedWord of JStr w \<Rightarrow> trim w = [] | _ \<Rightarrow> True)
      then Inl (Error ''redactedWord must be a non-empty string'')
      else Inr (JSON_stringify obj
                  (RedactingReplacer (case redactedWord of JStr w \<Rightarrow> Some w | _ \<Rightarrow> None)) 2))"

text \<open>
  \<^verbatim>\<open>safeArray(args)\<close>, branch by branch: \<open>undefined\<close> and \<open>null\<close>; an array; a string
  (trimmed, then empty, comma-separated or single); an object (the \<^verbatim>\<open>try\<close> around
  \<^verbatim>\<open>[args]\<close> cannot raise, so its \<^verbatim>\<open>catch\<close> is dead); any other value.
\<close>

fun safeArray :: "jsval \<Rightarrow> jsval list" where
  "safeArray JUndefined = []"
| "safeArray JNull = []"
| "safeArray (JArr xs) = xs"
| "safeArray (JStr args) =
     (let trimmedStr = trim args
      in if trimmedStr = [] then []
         else if includes_str trimmedStr '','' then
           (let items = filter (\<lambda>item. item \<noteq> [])
                          (map trim (split_on (CHR '','') trimmedStr))
            in if length items > 0 then map JStr items else [])
         else [JStr trimmedStr])"
| "safeArray (JObj kvs) = [JObj kvs]"
| "safeArray (JBool b) = [JBool b]"
| "safeArray (JNum n) = [JNum n]"

section \<open>\<^verbatim>\<open>lib/env.ts\<close> (\<^verbatim>\<open>src/unnamed/part_002\<close>): \<^verbatim>\<open>env\<close>\<close>

text \<open>
  How a block of statements ends: it runs to its end, returns a value, or raises.
\<close>

datatype 'a completion = Normal | Return 'a | Throw js_error

definition try_catch :: "'a completion \<Rightarrow> (js_error \<Rightarrow> 'a completion) \<Rightarrow> 'a completion" where
  "try_catch body handler = (case body of Throw e \<Rightarrow> handler e | c \<Rightarrow> c)"

text \<open>What the caller of a function gets from the completion of its body.\<close>

definition call_result :: "jsval completion \<Rightarrow> js_error + jsval" where
  "call_result c = (case c of Normal \<Rightarrow> Inr JUndefined | Return v \<Rightarrow> Inr v | Throw e \<Rightarrow> Inl e)"

text \<open>
  The body of the \<^verbatim>\<open>try\<close> block of \<^verbatim>\<open>env\<close>, on the looked-up \<^verbatim>\<open>value\<close>. For a string:
  a text in braces or brackets goes to \<^verbatim>\<open>JSON.parse\<close>, whose result is returned and
  whose error is raised; \<open>true\<close> and \<open>false\<close> in any case are the booleans; a string
  for which \<^verbatim>\<open>Number(value)\<close> is not \<open>NaN\<close> is that number; any other string leaves
  the block. The branches for an array and for an object are written as in the
  source, although a value of the environment is always a string.
\<close>

definition env_try :: "jsval \<Rightarrow> jsval \<Rightarrow> jsval completion" where
  "env_try value defaultValue =
     (case value of
        JStr s \<Rightarrow>
          if (startsWith s ''{'' \<and> endsWith s ''}'') \<or> (startsWith s ''['' \<and> endsWith s '']'')
          then (case JSON_parse s of Inl e \<Rightarrow> Throw e | Inr v \<Rightarrow> Return v)
          else if toLowerCase s = ''true'' then Return (JBool True)
          else if toLowerCase s = ''false'' then Return (JBool False)
          else if \<not> isNaN (StringToNumber s) then Return (JNum (StringToNumber s))
          else Normal
      | JArr xs \<Rightarrow> Return (JArr (safeArray value))
      | JObj kvs \<Rightarrow> if length kvs > 0 then Return value else Return defaultValue
      | JNull \<Rightarrow> Return defaultValue
      | _ \<Rightarrow> Normal)"

text \<open>
  \<^verbatim>\<open>env(key, defaultValue)\<close> over the environment \<open>processEnv\<close> (the host's
  \<^verbatim>\<open>process.env\<close>, a table from names to strings): an empty key, a name without a
  value and the empty value return the default; then the \<^verbatim>\<open>try\<close> block runs, its
  \<^verbatim>\<open>catch\<close> returns the default (after logging the error, which is not modelled),
  and a block that ran to its end is followed by \<^verbatim>\<open>return value\<close>. An omitted
  \<^verbatim>\<open>defaultValue\<close> is \<open>undefined\<close>.
\<close>

definition env_body :: "(string \<rightharpoonup> string) \<Rightarrow> string \<Rightarrow> jsval \<Rightarrow> jsval completion" where
  "env_body processEnv key defaultValue =
     (if key = [] then Return defaultValue
      else
        (case processEnv key of
           None \<Rightarrow> Return defaultValue
         | Some value \<Rightarrow>
             if value = [] then Return defaultValue
             else
               (case try_catch (env_try (JStr value) defaultValue)
                       (\<lambda>error. Return defaultValue) of
                  Normal \<Rightarrow> Return (JStr value)
                | c \<Rightarrow> c)))"

definition env :: "(string \<rightharpoonup> string) \<Rightarrow> string \<Rightarrow> jsval \<Rightarrow> js_error + jsval" where
  "env processEnv key defaultValue = call_result (env_body processEnv key defaultValue)"

section \<open>Notions of the specification\<close>

text \<open>The shape test before \<^verbatim>\<open>JSON.parse\<close>: braces or brackets at both ends.\<close>

definition looksLikeJSON :: "string \<Rightarrow> bool" where
  "looksLikeJSON s \<longleftrightarrow>
     (startsWith s ''{'' \<and> endsWith s ''}'') \<or> (startsWith s ''['' \<and> endsWith s '']'')"

text \<open>The environment of the scenario of the specification.\<close>

definition scenario :: "string \<rightharpoonup> string" where
  "scenario =
     [''PORT'' \<mapsto> ''8080'', ''DEBUG'' \<mapsto> ''true'', ''TAGS'' \<mapsto> ''a,b,c'',
      ''OPTS'' \<mapsto> ''{'' @ DQ @ ''x'' @ DQ @ '':1}'']"

text \<open>
  A key is sensitive when it contains \<open>SECRET\<close>, \<open>PASSWORD\<close> or the extra pattern, if
  one is supplied. The marker takes the place of the value of a sensitive key.
\<close>

definition sensitive :: "string option \<Rightarrow> string \<Rightarrow> bool" where
  "sensitive pattern key \<longleftrightarrow>
     includes_str key ''SECRET'' \<or> includes_str key ''PASSWORD'' \<or>
     (case pattern of None \<Rightarrow> False | Some w \<Rightarrow> includes_str key w)"

definition marker :: jsval where
  "marker = JStr ''[REDACTED]''"

text \<open>
  The \<^verbatim>\<open>redactedWord\<close> arguments that \<^verbatim>\<open>safeStringify\<close> accepts, as the pattern they
  stand for: \<open>undefined\<close> is no pattern, and a string must keep something after
  trimming.
\<close>

fun patternOf :: "jsval \<Rightarrow> string option" where
  "patternOf (JStr w) = Some w"
| "patternOf _ = None"

definition validPattern :: "jsval \<Rightarrow> bool" where
  "validPattern redactedWord \<longleftrightarrow>
     redactedWord = JUndefined \<or> (\<exists>w. redactedWord = JStr w \<and> trim w \<noteq> [])"

text \<open>
  The redaction as the specification words it, on values: in every object, at
  every depth, the value of a sensitive key becomes the marker, whatever it was,
  and the value of any other key is redacted in turn. The serializer keys the
  elements of an array by their index, so the same rule runs over indices, which
  are runs of decimal digits.
\<close>

fun redactValue :: "string option \<Rightarrow> jsval \<Rightarrow> jsval"
  and redactElements :: "string option \<Rightarrow> nat \<Rightarrow> jsval list \<Rightarrow> jsval list"
  and redactMembers :: "string option \<Rightarrow> (string \<times> jsval) list \<Rightarrow> (string \<times> jsval) list"
where
  "redactValue p (JArr xs) = JArr (redactElements p 0 xs)"
| "redactValue p (JObj kvs) = JObj (redactMembers p kvs)"
| "redactValue p v = v"
| "redactElements p i [] = []"
| "redactElements p i (x # xs) =
     (if sensitive p (natToString i) then marker else redactValue p x) #
     redactElements p (Suc i) xs"
| "redactMembers p [] = []"
| "redactMembers p ((k, x) # kvs) =
     (k, if sensitive p k then marker else redactValue p x) # redactMembers p kvs"

text \<open>
  The layout that a gap of two spaces gives: wherever the text breaks into a new
  line, the line starts with an even number of spaces, and something other than a
  space follows them.
\<close>

fun evenlyIndented :: "string \<Rightarrow> bool" where
  "evenlyIndented [] = True"
| "evenlyIndented (c # cs) =
     ((c = CHR 0x0A \<longrightarrow>
         even (length (takeWhile (\<lambda>x. x = CHR '' '') cs)) \<and>
         dropWhile (\<lambda>x. x = CHR '' '') cs \<noteq> []) \<and>
      evenlyIndented cs)"

text \<open>A text that starts with something other than a space and is evenly indented.\<close>

definition solid :: "string \<Rightarrow> bool" where
  "solid t \<longleftrightarrow> t \<noteq> [] \<and> hd t \<noteq> CHR '' '' \<and> evenlyIndented t"

text \<open>A text without a space and without a line break.\<close>

definition plain :: "string \<Rightarrow> bool" where
  "plain t \<longleftrightarrow> CHR '' '' \<notin> set t \<and> CHR 0x0A \<notin> set t"

section \<open>Facts about the string built-ins\<close>

lemma split_on_not_Nil: "split_on sep s \<noteq> []"
  by (induction s) auto

lemma join_Cons_nonempty: "ps \<noteq> [] \<Longrightarrow> join sep (p # ps) = p @ sep @ join sep ps"
  by (cases ps) auto

lemma join_split_on: "join [sep] (split_on sep s) = s"
proof (induction s)
  case Nil
  show ?case by simp
next
  case (Cons c cs)
  obtain p ps where sp: "split_on sep cs = p # ps"
    using split_on_not_Nil [of sep cs] by (cases "split_on sep cs") auto
  show ?case
  proof (cases "c = sep")
    case True
    then show ?thesis
      using Cons.IH split_on_not_Nil [of sep cs] by (simp add: join_Cons_nonempty)
  next
    case False
    have "join [sep] ((c # p) # ps) = c # join [sep] (p # ps)"
      by (cases ps) auto
    then show ?thesis
      using False Cons.IH sp by simp
  qed
qed

lemma split_on_pieces_free: "p \<in> set (split_on sep s) \<Longrightarrow> sep \<notin> set p"
proof (induction s arbitrary: p)
  case Nil
  then show ?case by simp
next
  case (Cons c cs)
  obtain q qs where sp: "split_on sep cs = q # qs"
    using split_on_not_Nil [of sep cs] by (cases "split_on sep cs") auto
  show ?case
  proof (cases "c = sep")
    case True
    then show ?thesis using Cons by auto
  next
    case False
    then have "p = c # q \<or> p \<in> set qs"
      using Cons.prems sp by auto
    then show ?thesis
      using False Cons.IH sp by auto
  qed
qed

lemma startsWith_iff_prefix: "startsWith s p \<longleftrightarrow> prefix p s"
  unfolding startsWith_def prefix_def
  by (metis append_eq_conv_conj append_take_drop_id)

lemma includes_str_iff_sublist: "includes_str s t \<longleftrightarrow> sublist t s"
proof (induction s)
  case Nil
  show ?case by simp
next
  case (Cons c cs)
  show ?case
  proof (cases t)
    case Nil
    then show ?thesis by (simp add: startsWith_def)
  next
    case (Cons d ds)
    then show ?thesis
      using Cons.IH by (simp add: startsWith_iff_prefix sublist_Cons_right)
  qed
qed

lemma includes_str_char: "includes_str s [c] \<longleftrightarrow> c \<in> set s"
  by (induction s) (auto simp: startsWith_def)

lemma trim_ends:
  "trim s = [] \<or> (\<not> isWhiteSpace (hd (trim s)) \<and> \<not> isWhiteSpace (last (trim s)))"
proof (cases "trim s = []")
  case True
  then show ?thesis by simp
next
  case False
  define a where "a = dropWhile isWhiteSpace s"
  define b where "b = dropWhile isWhiteSpace (rev a)"
  have tb: "trim s = rev b" by (simp add: trim_def a_def b_def)
  with False have bne: "b \<noteq> []" by simp
  then have hb: "\<not> isWhiteSpace (hd b)"
    unfolding b_def by (metis hd_dropWhile)
  have sfx: "suffix b (rev a)"
    unfolding b_def by (rule suffix_dropWhile)
  then obtain zs where ra: "rev a = zs @ b" by (auto simp: suffix_def)
  then have a_eq: "a = rev b @ rev zs" by (metis rev_append rev_rev_ident)
  have "a \<noteq> []" using a_eq bne by simp
  then have "\<not> isWhiteSpace (hd a)" unfolding a_def by (metis hd_dropWhile)
  moreover have "hd a = hd (rev b)" using a_eq bne by simp
  moreover have "last (rev b) = hd b" using bne by (simp add: last_rev)
  ultimately show ?thesis using tb hb by simp
qed

section \<open>Facts about the parser\<close>

lemma parseValue_length:
  "parseValue ts = Some (v, rest) \<Longrightarrow> length rest < length ts"
  and parseElements_length:
  "parseElements ts2 = Some (vs, rest2) \<Longrightarrow> length rest2 < length ts2"
  and parseMembers_length:
  "parseMembers ts3 = Some (ms, rest3) \<Longrightarrow> length rest3 < length ts3"
proof (induction ts and ts2 and ts3 arbitrary: v rest and vs rest2 and ms rest3
    rule: parseValue_parseElements_parseMembers.induct)
  case (12 ts)
  from "12.prems" obtain w r where pv: "parseValue ts = Some (w, r)"
    by (subst (asm) parseElements.simps) (auto split: option.splits)
  have lr: "length r < length ts"
    using "12.IH"(1) [OF pv] .
  show ?case
  proof (cases r)
    case Nil
    then show ?thesis
      using "12.prems" pv by (subst (asm) parseElements.simps) simp
  next
    case (Cons t r')
    show ?thesis
    proof (cases "t = TComma")
      case True
      from "12.prems" pv Cons True lr obtain vs' where
        pe: "parseElements r' = Some (vs', rest2)"
        by (subst (asm) parseElements.simps) (auto split: option.splits if_splits)
      have "length r' < length ts" using lr Cons by simp
      from "12.IH"(2) [OF pv refl Cons True this pe]
      show ?thesis using lr Cons by simp
    next
      case False
      then show ?thesis
        using "12.prems" pv Cons lr
        by (subst (asm) parseElements.simps) (auto split: token.splits)
    qed
  qed
next
  case (13 k ts)
  from "13.prems" obtain w r where pv: "parseValue ts = Some (w, r)"
    by (auto split: option.splits)
  have lr: "length r < length ts"
    using "13.IH"(1) [OF pv] .
  show ?case
  proof (cases r)
    case Nil
    then show ?thesis
      using "13.prems" pv by simp
  next
    case (Cons t r')
    show ?thesis
    proof (cases "t = TComma")
      case True
      from "13.prems" pv Cons True lr obtain ms' where
        pm: "parseMembers r' = Some (ms', rest3)"
        by (auto split: option.splits if_splits)
      have "length r' < length ts" using lr Cons by simp
      from "13.IH"(2) [OF pv refl Cons True this pm]
      show ?thesis using lr Cons by simp
    next
      case False
      then show ?thesis
        using "13.prems" pv Cons lr
        by (auto split: token.splits)
    qed
  qed
qed (auto split: option.splits)


lemma parseMembers_unfold:
  "parseMembers (TString k # TColon # ts) =
     (case parseValue ts of
        None \<Rightarrow> None
      | Some (v, rest) \<Rightarrow>
          (case rest of
             TComma # rest' \<Rightarrow>
               (case parseMembers rest' of
                  None \<Rightarrow> None
                | Some (ms, rest'') \<Rightarrow> Some ((k, v) # ms, rest''))
           | TRBrace # rest' \<Rightarrow> Some ([(k, v)], rest')
           | _ \<Rightarrow> None))"
proof (cases "parseValue ts")
  case None
  then show ?thesis by simp
next
  case (Some p)
  obtain v rest where p: "p = (v, rest)" by (cases p)
  have "length rest < length ts"
    using parseValue_length Some p by blast
  then show ?thesis
    using Some p by (auto split: list.splits token.splits)
qed

section \<open>Facts about \<^verbatim>\<open>env\<close>\<close>

lemma env_found:
  "key \<noteq> [] \<Longrightarrow> processEnv key = Some value \<Longrightarrow> value \<noteq> [] \<Longrightarrow>
   env processEnv key d =
     (case env_try (JStr value) d of
        Normal \<Rightarrow> Inr (JStr value)
      | Return v \<Rightarrow> Inr v
      | Throw e \<Rightarrow> Inr d)"
  by (simp add: env_def env_body_def try_catch_def call_result_def split: completion.splits)

lemma env_default:
  "key = [] \<or> processEnv key = None \<or> processEnv key = Some [] \<Longrightarrow>
   env processEnv key d = Inr d"
  by (auto simp: env_def env_body_def call_result_def)

lemma env_try_json:
  "looksLikeJSON s \<Longrightarrow>
   env_try (JStr s) d = (case JSON_parse s of Inl e \<Rightarrow> Throw e | Inr v \<Rightarrow> Return v)"
  unfolding env_try_def looksLikeJSON_def by (simp only: jsval.case if_P if_True)

lemma env_try_plain:
  "\<not> looksLikeJSON s \<Longrightarrow>
   env_try (JStr s) d =
     (if toLowerCase s = ''true'' then Return (JBool True)
      else if toLowerCase s = ''false'' then Return (JBool False)
      else if \<not> isNaN (StringToNumber s) then Return (JNum (StringToNumber s))
      else Normal)"
  unfolding env_try_def looksLikeJSON_def by (simp only: jsval.case if_not_P if_False)

lemma toLowerCase_plain:
  "list_all (\<lambda>c. \<not> isUpperCase c) s \<Longrightarrow> toLowerCase s = s"
  by (induction s) (auto simp: toLowerCase_def toLowerChar_def)



lemma StringToNumber_8080: "StringToNumber ''8080'' = Finite False 8080 0"
  by (simp add: StringToNumber_def trim_def isWhiteSpace_def StrUnsignedDecimalLiteral_def
      isDigit_def exponentPart_def mkFinite_def digitsValue_def digitValue_def)

lemma env_number:
  assumes "key \<noteq> []" and "processEnv key = Some value" and "value \<noteq> []"
    and "\<not> looksLikeJSON value"
    and "toLowerCase value \<noteq> ''true''" and "toLowerCase value \<noteq> ''false''"
    and "\<not> isNaN (StringToNumber value)"
  shows "env processEnv key d = Inr (JNum (StringToNumber value))"
  using assms by (simp add: env_found env_try_plain)

section \<open>Facts about the redacting serialization\<close>

lemma trim_Nil: "trim [] = []"
  by (simp add: trim_def)

lemma validPattern_nonempty: "validPattern (JStr w) \<Longrightarrow> w \<noteq> []"
  by (auto simp: validPattern_def trim_Nil)

lemma replacer_sensitive:
  "pattern \<noteq> Some [] \<Longrightarrow>
   replacer pattern key v = (if sensitive pattern key then marker else v)"
  by (cases pattern) (auto simp: replacer_def sensitive_def marker_def)

lemma empty_key_not_sensitive: "pattern \<noteq> Some [] \<Longrightarrow> \<not> sensitive pattern []"
  by (cases pattern) (auto simp: sensitive_def)

lemma safeStringify_valid:
  "validPattern redactedWord \<Longrightarrow>
   safeStringify obj redactedWord =
     Inr (SerializeJSONProperty (RedactingReplacer (patternOf redactedWord)) ''  '' [] [] obj)"
  by (auto simp: validPattern_def safeStringify_def JSON_stringify_def eval_nat_numeral)

lemma safeStringify_invalid:
  "\<not> validPattern redactedWord \<Longrightarrow>
   safeStringify obj redactedWord = Inl (Error ''redactedWord must be a non-empty string'')"
  by (cases redactedWord) (auto simp: validPattern_def safeStringify_def)

lemma patternOf_valid: "validPattern redactedWord \<Longrightarrow> patternOf redactedWord \<noteq> Some []"
  by (cases redactedWord) (auto dest: validPattern_nonempty)

lemma serialize_sensitive:
  "pattern \<noteq> Some [] \<Longrightarrow> sensitive pattern key \<Longrightarrow>
   SerializeJSONProperty (RedactingReplacer pattern) gap indent key v =
     Some (QuoteJSONString ''[REDACTED]'')"
  by (simp add: SerializeJSONProperty.simps replacer_sensitive marker_def)

lemma serialize_elements_nth:
  "i < length xs \<Longrightarrow>
   SerializeJSONElements rf gap indent k xs ! i =
     (case SerializeJSONProperty rf gap indent (natToString (k + i)) (xs ! i) of
        None \<Rightarrow> ''null''
      | Some t \<Rightarrow> t)"
proof (induction xs arbitrary: k i)
  case Nil
  then show ?case by simp
next
  case (Cons x xs)
  show ?case
  proof (cases i)
    case 0
    then show ?thesis by simp
  next
    case (Suc j)
    then have "j < length xs" using Cons.prems by simp
    from Cons.IH [OF this, of "Suc k"] show ?thesis
      using Suc by simp
  qed
qed

lemma digitChar_digit: "d < 10 \<Longrightarrow> digitChar d \<in> set ''0123456789''"
proof -
  assume "d < 10"
  then have "d \<in> {0, 1, 2, 3, 4, 5, 6, 7, 8, 9}" by auto
  then show ?thesis by (auto simp: digitChar_def)
qed

lemma natToString_digits: "set (natToString n) \<subseteq> set ''0123456789''"
proof (induction n rule: natToString.induct)
  case (1 n)
  show ?case
  proof (cases "n < 10")
    case True
    then show ?thesis
      using digitChar_digit [of n] by (subst natToString.simps) simp
  next
    case False
    have "n mod 10 < 10" by simp
    then show ?thesis
      using False "1.IH" digitChar_digit [of "n mod 10"]
      by (subst natToString.simps) simp
  qed
qed

lemma includes_str_subset: "includes_str s t \<Longrightarrow> set t \<subseteq> set s"
  unfolding includes_str_iff_sublist by (rule set_mono_sublist)

lemma index_not_builtin:
  "\<not> includes_str (natToString i) ''SECRET'' \<and> \<not> includes_str (natToString i) ''PASSWORD''"
proof -
  have "CHR ''S'' \<notin> set (natToString i)"
    using natToString_digits [of i] by auto
  then show ?thesis
    using includes_str_subset [of "natToString i" "''SECRET''"]
      includes_str_subset [of "natToString i" "''PASSWORD''"]
    by auto
qed

lemma serialize_marker:
  "SerializeJSONProperty NoReplacer gap indent key marker = Some (QuoteJSONString ''[REDACTED]'')"
  by (simp add: SerializeJSONProperty.simps marker_def)

lemma serialize_redacted:
  assumes "p \<noteq> Some []"
  shows "\<not> sensitive p key \<Longrightarrow>
      SerializeJSONProperty (RedactingReplacer p) gap indent key v =
      SerializeJSONProperty NoReplacer gap indent key (redactValue p v)"
    and "SerializeJSONElements (RedactingReplacer p) gap indent i xs =
      SerializeJSONElements NoReplacer gap indent i (redactElements p i xs)"
    and "SerializeJSONMembers (RedactingReplacer p) gap indent kvs =
      SerializeJSONMembers NoReplacer gap indent (redactMembers p kvs)"
  using assms
proof (induction p v and p i xs and p kvs arbitrary: gap indent key and gap indent and gap indent
    rule: redactValue_redactElements_redactMembers.induct)
  case (5 p i x xs)
  show ?case
  proof (cases "sensitive p (natToString i)")
    case True
    then show ?thesis
      using "5.IH"(2) "5.prems"
      by (simp add: serialize_sensitive serialize_marker)
  next
    case False
    then show ?thesis
      using "5.IH"(1) [OF False False] "5.IH"(2) "5.prems" by simp
  qed
next
  case (7 p k x kvs)
  show ?case
  proof (cases "sensitive p k")
    case True
    then show ?thesis
      using "7.IH"(2) "7.prems"
      by (simp add: serialize_sensitive serialize_marker)
  next
    case False
    then show ?thesis
      using "7.IH"(1) [OF False False] "7.IH"(2) "7.prems" by simp
  qed
qed (simp_all add: SerializeJSONProperty.simps replacer_sensitive)

section \<open>Facts about the layout of the serialization\<close>

lemma evenlyIndented_no_newline: "CHR 0x0A \<notin> set t \<Longrightarrow> evenlyIndented t"
  by (induction t) auto

lemma evenlyIndented_append:
  "evenlyIndented a \<Longrightarrow> evenlyIndented b \<Longrightarrow> evenlyIndented (a @ b)"
proof (induction a)
  case Nil
  then show ?case by simp
next
  case (Cons c cs)
  have tail: "evenlyIndented (cs @ b)"
    using Cons by simp
  show ?case
  proof (cases "c = CHR 0x0A")
    case False
    then show ?thesis using tail by simp
  next
    case True
    with Cons.prems have ev: "even (length (takeWhile (\<lambda>x. x = CHR '' '') cs))"
      and ne: "dropWhile (\<lambda>x. x = CHR '' '') cs \<noteq> []"
      by simp_all
    from ne obtain x where x: "x \<in> set cs" "x \<noteq> CHR '' ''"
      by (auto simp: dropWhile_eq_Nil_conv)
    then have "takeWhile (\<lambda>x. x = CHR '' '') (cs @ b) = takeWhile (\<lambda>x. x = CHR '' '') cs"
      and "dropWhile (\<lambda>x. x = CHR '' '') (cs @ b) = dropWhile (\<lambda>x. x = CHR '' '') cs @ b"
      by (auto intro: takeWhile_append1 dropWhile_append1)
    then show ?thesis
      using True ev ne tail by simp
  qed
qed

lemma evenlyIndented_line:
  assumes "solid t"
  shows "evenlyIndented (NL @ replicate (2 * n) (CHR '' '') @ t)"
proof -
  from assms obtain c cs where t: "t = c # cs" and c: "c \<noteq> CHR '' ''"
    by (cases t) (auto simp: solid_def)
  have tw: "takeWhile (\<lambda>x. x = CHR '' '') (replicate (2 * n) (CHR '' '') @ t) =
      replicate (2 * n) (CHR '' '')"
    using t c by (subst takeWhile_append2) auto
  have dw: "dropWhile (\<lambda>x. x = CHR '' '') (replicate (2 * n) (CHR '' '') @ t) = t"
    using t c by (subst dropWhile_append2) auto
  have "evenlyIndented (replicate (2 * n) (CHR '' ''))"
    by (rule evenlyIndented_no_newline) simp
  then have "evenlyIndented (replicate (2 * n) (CHR '' '') @ t)"
    using assms by (simp add: evenlyIndented_append solid_def)
  then show ?thesis
    using tw dw t by (simp add: NL_def)
qed

lemma solid_append: "solid a \<Longrightarrow> evenlyIndented b \<Longrightarrow> solid (a @ b)"
  by (auto simp: solid_def evenlyIndented_append)

lemma solid_plain:
  "t \<noteq> [] \<Longrightarrow> CHR '' '' \<notin> set t \<Longrightarrow> CHR 0x0A \<notin> set t \<Longrightarrow> solid t"
  by (cases t) (auto simp: solid_def evenlyIndented_no_newline)

lemma solid_join:
  "partial \<noteq> [] \<Longrightarrow> \<forall>m \<in> set partial. solid m \<Longrightarrow>
   solid (join ('','' @ NL @ replicate (2 * n) (CHR '' '')) partial)"
proof (induction partial)
  case Nil
  then show ?case by simp
next
  case (Cons p ps)
  show ?case
  proof (cases ps)
    case Nil
    then show ?thesis using Cons.prems by simp
  next
    case (Cons q qs)
    then have rest: "solid (join ('','' @ NL @ replicate (2 * n) (CHR '' '')) ps)"
      using Cons.IH Cons.prems by simp
    have "evenlyIndented ('','' @ (NL @ replicate (2 * n) (CHR '' '') @
        join ('','' @ NL @ replicate (2 * n) (CHR '' '')) ps))"
      by (intro evenlyIndented_append evenlyIndented_line rest) simp
    moreover have "solid p" using Cons.prems by simp
    ultimately have "solid (p @ '','' @ (NL @ replicate (2 * n) (CHR '' '') @
        join ('','' @ NL @ replicate (2 * n) (CHR '' '')) ps))"
      by (rule solid_append [rotated])
    then show ?thesis
      using Cons by simp
  qed
qed

lemma solid_wrapJSON:
  assumes "\<forall>m \<in> set partial. solid m"
    and "solid opening" and "CHR 0x0A \<notin> set opening"
    and "solid closing" and "CHR 0x0A \<notin> set closing"
  shows "solid (wrapJSON opening closing ''  '' (replicate (2 * d) (CHR '' '')) partial)"
proof (cases "partial = []")
  case True
  have "solid (opening @ closing)"
    using assms(2,4) by (intro solid_append) (simp_all add: solid_def)
  then show ?thesis
    using True by (simp add: wrapJSON_def)
next
  case False
  have "''  '' = replicate 2 (CHR '' '')"
    by (simp add: eval_nat_numeral)
  then have ind: "replicate (2 * d) (CHR '' '') @ ''  '' = replicate (2 * Suc d) (CHR '' '')"
    by (simp add: replicate_add [symmetric])
  have body: "solid (join ('','' @ NL @ replicate (2 * Suc d) (CHR '' '')) partial)"
    using False assms(1) by (rule solid_join)
  have l1: "evenlyIndented (NL @ replicate (2 * Suc d) (CHR '' '') @
      join ('','' @ NL @ replicate (2 * Suc d) (CHR '' '')) partial)"
    using body by (rule evenlyIndented_line)
  have l2: "evenlyIndented (NL @ replicate (2 * d) (CHR '' '') @ closing)"
    using assms(4) by (rule evenlyIndented_line)
  have "evenlyIndented ((NL @ replicate (2 * Suc d) (CHR '' '') @
      join ('','' @ NL @ replicate (2 * Suc d) (CHR '' '')) partial) @
      (NL @ replicate (2 * d) (CHR '' '') @ closing))"
    using l1 l2 by (rule evenlyIndented_append)
  with assms(2) have "solid (opening @ (NL @ replicate (2 * Suc d) (CHR '' '') @
      join ('','' @ NL @ replicate (2 * Suc d) (CHR '' '')) partial) @
      (NL @ replicate (2 * d) (CHR '' '') @ closing))"
    by (rule solid_append)
  then show ?thesis
    using False unfolding wrapJSON_def ind by simp
qed

text \<open>The texts of the primitive values.\<close>

lemma hexDigitChar_plain: "d < 16 \<Longrightarrow> hexDigitChar d \<noteq> CHR 0x0A"
proof -
  assume "d < 16"
  then have "''0123456789abcdef'' ! d \<in> set ''0123456789abcdef''"
    by (intro nth_mem) simp
  then show ?thesis
    unfolding hexDigitChar_def by auto
qed

lemma quoteChar_no_newline: "CHR 0x0A \<notin> set (quoteChar c)"
proof -
  have "(of_char c :: nat) < 32 \<Longrightarrow> (of_char c :: nat) div 16 < 16"
    by simp
  then show ?thesis
    using hexDigitChar_plain [of "(of_char c :: nat) div 16"]
      hexDigitChar_plain [of "(of_char c :: nat) mod 16"]
    by (auto simp: quoteChar_def)
qed

lemma solid_QuoteJSONString: "solid (QuoteJSONString s)"
proof -
  have "CHR 0x0A \<notin> set (concat (map quoteChar s))"
    using quoteChar_no_newline by auto
  then have "evenlyIndented (QuoteJSONString s)"
    by (intro evenlyIndented_no_newline) (simp add: QuoteJSONString_def DQ_def)
  then show ?thesis
    by (simp add: solid_def QuoteJSONString_def DQ_def)
qed

lemma natToString_nonzero: "0 < n \<Longrightarrow> \<exists>c \<in> set (natToString n). c \<noteq> CHR ''0''"
proof (induction n rule: natToString.induct)
  case (1 n)
  show ?case
  proof (cases "n < 10")
    case True
    with "1.prems" have "n \<in> {1, 2, 3, 4, 5, 6, 7, 8, 9}" by auto
    then have "digitChar n \<noteq> CHR ''0''" by (auto simp: digitChar_def)
    then show ?thesis using True by (subst natToString.simps) simp
  next
    case False
    then have "0 < n div 10" by simp
    from "1.IH" [OF False this] show ?thesis
      using False by (subst natToString.simps) auto
  qed
qed

lemma plain_append: "plain (a @ b) \<longleftrightarrow> plain a \<and> plain b"
  by (auto simp: plain_def)

lemma plain_Cons: "plain (c # cs) \<longleftrightarrow> c \<noteq> CHR '' '' \<and> c \<noteq> CHR 0x0A \<and> plain cs"
  by (auto simp: plain_def)

lemma plain_Nil: "plain []"
  by (simp add: plain_def)

lemma plain_subset: "plain s \<Longrightarrow> set t \<subseteq> set s \<Longrightarrow> plain t"
  by (auto simp: plain_def)

lemma plain_natToString: "plain (natToString n)"
  using natToString_digits [of n] by (auto simp: plain_def)

lemma plain_replicate: "c \<noteq> CHR '' '' \<Longrightarrow> c \<noteq> CHR 0x0A \<Longrightarrow> plain (replicate n c)"
  by (auto simp: plain_def)

lemma plain_take: "plain s \<Longrightarrow> plain (take m s)"
  using set_take_subset [of m s] by (rule plain_subset [rotated])

lemma plain_drop: "plain s \<Longrightarrow> plain (drop m s)"
  using set_drop_subset [of m s] by (rule plain_subset [rotated])

lemma plain_tl: "plain s \<Longrightarrow> plain (tl s)"
  by (cases s) (auto simp: plain_def)

lemma plain_hd: "plain s \<Longrightarrow> s \<noteq> [] \<Longrightarrow> hd s \<noteq> CHR '' '' \<and> hd s \<noteq> CHR 0x0A"
  by (cases s) (auto simp: plain_def)

lemma plain_stripTrailingZeros: "plain ds \<Longrightarrow> plain (stripTrailingZeros ds)"
  unfolding stripTrailingZeros_def plain_def by (auto dest: set_dropWhileD)

lemma stripTrailingZeros_nonempty: "0 < n \<Longrightarrow> stripTrailingZeros (natToString n) \<noteq> []"
  using natToString_nonzero [of n] by (auto simp: stripTrailingZeros_def dropWhile_eq_Nil_conv)

lemma NumberToString_finite:
  "plain (NumberToString (Finite neg c sc)) \<and> NumberToString (Finite neg c sc) \<noteq> []"
proof (cases "c = 0")
  case True
  then show ?thesis by (simp add: NumberToString_def plain_def)
next
  case False
  define s where "s = stripTrailingZeros (natToString c)"
  have ne: "s \<noteq> []"
    unfolding s_def using False stripTrailingZeros_nonempty [of c] by simp
  have ps: "plain s"
    unfolding s_def by (intro plain_stripTrailingZeros plain_natToString)
  note facts = ps plain_take [OF ps] plain_drop [OF ps] plain_tl [OF ps] plain_hd [OF ps ne]
    plain_natToString plain_replicate
  have "plain (NumberToString (Finite neg c sc))"
    using False facts
    unfolding NumberToString_def jsnum.case Let_def s_def [symmetric]
    by (simp add: plain_append plain_Cons plain_Nil)
  moreover have "NumberToString (Finite neg c sc) \<noteq> []"
    using False ne
    unfolding NumberToString_def jsnum.case Let_def s_def [symmetric]
    by simp
  ultimately show ?thesis ..
qed

lemma solid_NumberToString: "isFiniteNumber x \<Longrightarrow> solid (NumberToString x)"
proof (cases x)
  case (Finite neg c sc)
  then show ?thesis
    using NumberToString_finite [of neg c sc] by (auto simp: plain_def intro: solid_plain)
qed (simp_all add: isFiniteNumber_def)

lemma indent_deeper:
  "replicate (2 * d) (CHR '' '') @ ''  '' = replicate (2 * Suc d) (CHR '' '')"
proof -
  have "''  '' = replicate 2 (CHR '' '')"
    by (simp add: eval_nat_numeral)
  then show ?thesis
    by (simp add: replicate_add [symmetric])
qed

lemma solid_literals: "solid ''null''" "solid ''true''" "solid ''false''" "solid ''[''"
  "solid '']''" "solid ''{''" "solid ''}''"
  by (simp_all add: solid_def)

text \<open>
  Every text that the serializer produces with a gap of two spaces, at an
  indentation of an even number of spaces, is solid.
\<close>

lemma serialize_solid:
  "gap = ''  '' \<Longrightarrow> indent = replicate (2 * d) (CHR '' '') \<Longrightarrow>
     SerializeJSONProperty rf gap indent key v = Some t \<Longrightarrow> solid t"
  "gap' = ''  '' \<Longrightarrow> indent' = replicate (2 * d') (CHR '' '') \<Longrightarrow>
     m \<in> set (SerializeJSONElements rf' gap' indent' i xs) \<Longrightarrow> solid m"
  "gap'' = ''  '' \<Longrightarrow> indent'' = replicate (2 * d'') (CHR '' '') \<Longrightarrow>
     m' \<in> set (SerializeJSONMembers rf'' gap'' indent'' kvs) \<Longrightarrow> solid m'"
proof (induction rf gap indent key v and rf' gap' indent' i xs and rf'' gap'' indent'' kvs
    arbitrary: d t and d' m and d'' m'
    rule: SerializeJSONProperty_SerializeJSONElements_SerializeJSONMembers.induct)
  case (1 rf gap indent key holderValue)
  note gap = \<open>gap = ''  ''\<close> and ind = \<open>indent = replicate (2 * d) (CHR '' '')\<close>
  have deeper: "indent @ gap = replicate (2 * Suc d) (CHR '' '')"
    unfolding gap ind by (rule indent_deeper)
  show ?case
  proof (cases "callReplacer rf key holderValue")
    case JUndefined
    then show ?thesis using "1.prems"(3) by (simp add: SerializeJSONProperty.simps)
  next
    case JNull
    then show ?thesis
      using "1.prems"(3) solid_literals by (auto simp: SerializeJSONProperty.simps)
  next
    case (JBool b)
    then show ?thesis
      using "1.prems"(3) solid_literals by (auto simp: SerializeJSONProperty.simps)
  next
    case (JNum n)
    then show ?thesis
      using "1.prems"(3) solid_literals solid_NumberToString [of n]
      by (auto simp: SerializeJSONProperty.simps split: if_splits)
  next
    case (JStr s)
    then show ?thesis
      using "1.prems"(3) solid_QuoteJSONString by (auto simp: SerializeJSONProperty.simps)
  next
    case (JArr xs)
    have parts: "\<forall>m \<in> set (SerializeJSONElements rf gap (indent @ gap) 0 xs). solid m"
      using "1.IH"(1) [OF JArr gap deeper] by blast
    have "solid (wrapJSON ''['' '']'' ''  '' (replicate (2 * d) (CHR '' ''))
        (SerializeJSONElements rf gap (indent @ gap) 0 xs))"
      using parts solid_literals by (intro solid_wrapJSON) simp_all
    then show ?thesis
      using "1.prems"(3) JArr gap ind by (simp add: SerializeJSONProperty.simps)
  next
    case (JObj kvs)
    have parts: "\<forall>m \<in> set (SerializeJSONMembers rf gap (indent @ gap) kvs). solid m"
      using "1.IH"(2) [OF JObj gap deeper] by blast
    have "solid (wrapJSON ''{'' ''}'' ''  '' (replicate (2 * d) (CHR '' ''))
        (SerializeJSONMembers rf gap (indent @ gap) kvs))"
      using parts solid_literals by (intro solid_wrapJSON) simp_all
    then show ?thesis
      using "1.prems"(3) JObj gap ind by (simp add: SerializeJSONProperty.simps)
  qed
next
  case (2 rf gap indent i)
  then show ?case by simp
next
  case (3 rf gap indent i x xs)
  show ?case
  proof (cases "m \<in> set (SerializeJSONElements rf gap indent (Suc i) xs)")
    case True
    then show ?thesis using "3.IH"(2) "3.prems"(1,2) by blast
  next
    case False
    then have m: "m = (case SerializeJSONProperty rf gap indent (natToString i) x of
        None \<Rightarrow> ''null'' | Some t \<Rightarrow> t)"
      using "3.prems"(3) by simp
    show ?thesis
    proof (cases "SerializeJSONProperty rf gap indent (natToString i) x")
      case None
      then show ?thesis using m solid_literals by simp
    next
      case (Some t)
      then show ?thesis using m "3.IH"(1) "3.prems"(1,2) by simp
    qed
  qed
next
  case (4 rf gap indent)
  then show ?case by simp
next
  case (5 rf gap indent k x kvs)
  show ?case
  proof (cases "m' \<in> set (SerializeJSONMembers rf gap indent kvs)")
    case True
    then show ?thesis using "5.IH"(2) "5.prems"(1,2) by blast
  next
    case False
    show ?thesis
    proof (cases "SerializeJSONProperty rf gap indent k x")
      case None
      then show ?thesis using False "5.prems"(3) by simp
    next
      case (Some t)
      then have m: "m' = QuoteJSONString k @ '': '' @ t"
        using False "5.prems"(1,3) by simp
      have "solid t" using "5.IH"(1) "5.prems"(1,2) Some by simp
      then have "evenlyIndented ('': '' @ t)"
        by (intro evenlyIndented_append) (simp_all add: solid_def)
      with solid_QuoteJSONString have "solid (QuoteJSONString k @ '': '' @ t)"
        by (rule solid_append)
      then show ?thesis using m by simp
    qed
  qed
qed

lemma serialize_None:
  "SerializeJSONProperty rf gap indent key v = None \<longleftrightarrow> callReplacer rf key v = JUndefined"
  by (cases "callReplacer rf key v") (simp_all add: SerializeJSONProperty.simps)

section \<open>Claims\<close>

text \<open>
  C7. \<^verbatim>\<open>safeArray\<close> (the spec's \<open>toArray\<close>) is total and, for every input:
  \<open>undefined\<close> and \<open>null\<close> give the empty array; an array is returned as it is; a
  string is trimmed first, and then an empty one gives the empty array, one with a
  comma is cut at its commas (the segments \<open>segs\<close> are exactly the comma-free pieces
  that, joined by commas, give the trimmed string back), each segment is trimmed,
  the empty ones are dropped and the rest keep their order, and one without a
  comma gives the one-element array of the trimmed string; an object, a boolean
  and a number are wrapped in a one-element array.
\<close>

theorem safeArray_cases:
  "safeArray JUndefined = [] \<and> safeArray JNull = [] \<and>
   safeArray (JArr xs) = xs \<and>
   (trim s = [] \<longrightarrow> safeArray (JStr s) = []) \<and>
   (trim s \<noteq> [] \<and> CHR '','' \<in> set (trim s) \<longrightarrow>
      (\<exists>segs. join '','' segs = trim s \<and> (\<forall>seg \<in> set segs. CHR '','' \<notin> set seg) \<and>
         safeArray (JStr s) = map JStr (filter (\<lambda>seg. seg \<noteq> []) (map trim segs)))) \<and>
   (trim s \<noteq> [] \<and> CHR '','' \<notin> set (trim s) \<longrightarrow> safeArray (JStr s) = [JStr (trim s)]) \<and>
   safeArray (JObj kvs) = [JObj kvs] \<and>
   safeArray (JBool b) = [JBool b] \<and> safeArray (JNum n) = [JNum n]"
proof -
  have split: "trim s \<noteq> [] \<and> CHR '','' \<in> set (trim s) \<longrightarrow>
      (\<exists>segs. join '','' segs = trim s \<and> (\<forall>seg \<in> set segs. CHR '','' \<notin> set seg) \<and>
         safeArray (JStr s) = map JStr (filter (\<lambda>seg. seg \<noteq> []) (map trim segs)))"
  proof
    assume a: "trim s \<noteq> [] \<and> CHR '','' \<in> set (trim s)"
    let ?segs = "split_on (CHR '','') (trim s)"
    have "join '','' ?segs = trim s" by (rule join_split_on)
    moreover have "\<forall>seg \<in> set ?segs. CHR '','' \<notin> set seg"
      using split_on_pieces_free by blast
    moreover have "safeArray (JStr s) = map JStr (filter (\<lambda>seg. seg \<noteq> []) (map trim ?segs))"
      using a by (simp add: includes_str_char Let_def)
    ultimately show "\<exists>segs. join '','' segs = trim s \<and> (\<forall>seg \<in> set segs. CHR '','' \<notin> set seg) \<and>
         safeArray (JStr s) = map JStr (filter (\<lambda>seg. seg \<noteq> []) (map trim segs))"
      by blast
  qed
  have single: "trim s \<noteq> [] \<and> CHR '','' \<notin> set (trim s) \<longrightarrow> safeArray (JStr s) = [JStr (trim s)]"
    by (simp add: includes_str_char Let_def)
  have empty: "trim s = [] \<longrightarrow> safeArray (JStr s) = []"
    by simp
  show ?thesis
    using split single empty by simp
qed

theorem safeArray_cases_witness:
  "safeArray JNull = [] \<and>
   safeArray (JArr [int_num 1, int_num 2]) = [int_num 1, int_num 2] \<and>
   safeArray (JStr ''   '') = [] \<and>
   safeArray (JStr ''a, b ,c'') = [JStr ''a'', JStr ''b'', JStr ''c''] \<and>
   safeArray (JStr '' solo '') = [JStr ''solo''] \<and>
   safeArray (JObj [(''id'', int_num 1)]) = [JObj [(''id'', int_num 1)]]"
proof -
  have blank: "trim ''   '' = []"
    by (simp add: trim_def isWhiteSpace_def)
  have solo: "trim '' solo '' = ''solo''"
    by (simp add: trim_def isWhiteSpace_def)
  have list: "safeArray (JStr ''a, b ,c'') = [JStr ''a'', JStr ''b'', JStr ''c'']"
    by (simp add: trim_def isWhiteSpace_def startsWith_def)
  show ?thesis
    using safeArray_cases [of "[int_num 1, int_num 2]" "''   ''" "[(''id'', int_num 1)]" True NaN]
      safeArray_cases [of "[]" "'' solo ''" "[]" True NaN] blank solo list
    by simp
qed



text \<open>
  C2. When the looked-up value has braces or brackets at both ends and
  \<^verbatim>\<open>JSON.parse\<close> fails on it, \<^verbatim>\<open>env\<close> returns the default, not the raw string: the
  \<^verbatim>\<open>try\<close> block ends with the error of the parse, before the boolean and the numeric
  step, and the \<^verbatim>\<open>catch\<close> returns the default.
\<close>

theorem env_json_failure:
  assumes "processEnv key = Some value" and "looksLikeJSON value"
    and "JSON_parse value = Inl e"
  shows "env processEnv key d = Inr d \<and> (key \<noteq> [] \<longrightarrow> env_try (JStr value) d = Throw e)"
proof (cases "key = [] \<or> value = []")
  case True
  then show ?thesis
    using assms env_default [of key processEnv d] by (auto simp: env_try_json)
next
  case False
  then show ?thesis
    using assms by (simp add: env_found env_try_json)
qed

theorem env_json_failure_witness:
  "env [''OPTS'' \<mapsto> ''{oops}''] ''OPTS'' (JStr ''fallback'') = Inr (JStr ''fallback'') \<and>
   env_try (JStr ''{oops}'') (JStr ''fallback'') = Throw SyntaxError"
proof -
  have parse: "JSON_parse ''{oops}'' = Inl SyntaxError"
    by (simp add: JSON_parse_def isJSONWhiteSpace_def isDigit_def startsWith_def)
  have looks: "looksLikeJSON ''{oops}''"
    by (simp add: looksLikeJSON_def startsWith_def endsWith_def)
  show ?thesis
    using env_json_failure [of "[''OPTS'' \<mapsto> ''{oops}'']" "''OPTS''" "''{oops}''" SyntaxError
        "JStr ''fallback''"] parse looks
    by simp
qed



text \<open>
  C6. With the environment \<open>PORT=8080\<close>, \<open>DEBUG=true\<close>, \<open>TAGS=a,b,c\<close> and
  \<open>OPTS={"x":1}\<close>: \<open>PORT\<close> is the number 8080, \<open>DEBUG\<close> the boolean \<open>true\<close>, \<open>TAGS\<close> the
  string \<open>a,b,c\<close> as it stands (\<^verbatim>\<open>env\<close> splits nothing at commas), and \<open>OPTS\<close> the object
  with the one property \<open>x\<close> of value 1.
\<close>

theorem env_scenario:
  "env scenario ''PORT'' d = Inr (int_num 8080) \<and>
   env scenario ''DEBUG'' d = Inr (JBool True) \<and>
   env scenario ''TAGS'' d = Inr (JStr ''a,b,c'') \<and>
   env scenario ''OPTS'' d = Inr (JObj [(''x'', int_num 1)])"
proof -
  have port: "env scenario ''PORT'' d = Inr (int_num 8080)"
  proof -
    have "toLowerCase ''8080'' = ''8080''"
      by (simp add: toLowerCase_plain isUpperCase_def)
    moreover have "\<not> looksLikeJSON ''8080''"
      by (simp add: looksLikeJSON_def startsWith_def)
    ultimately show ?thesis
      using env_number [of "''PORT''" scenario "''8080''" d]
      by (simp add: scenario_def StringToNumber_8080 isNaN_def int_num_def)
  qed
  have debug: "env scenario ''DEBUG'' d = Inr (JBool True)"
  proof -
    have "toLowerCase ''true'' = ''true''"
      by (simp add: toLowerCase_plain isUpperCase_def)
    moreover have "\<not> looksLikeJSON ''true''"
      by (simp add: looksLikeJSON_def startsWith_def)
    ultimately show ?thesis
      by (simp add: scenario_def env_found env_try_plain)
  qed
  have tags: "env scenario ''TAGS'' d = Inr (JStr ''a,b,c'')"
  proof -
    have "toLowerCase ''a,b,c'' = ''a,b,c''"
      by (simp add: toLowerCase_plain isUpperCase_def)
    moreover have "\<not> looksLikeJSON ''a,b,c''"
      by (simp add: looksLikeJSON_def startsWith_def)
    moreover have "StringToNumber ''a,b,c'' = NaN"
      by (simp add: StringToNumber_def trim_def isWhiteSpace_def StrUnsignedDecimalLiteral_def
          isDigit_def)
    ultimately show ?thesis
      by (simp add: scenario_def env_found env_try_plain isNaN_def)
  qed
  have opts: "env scenario ''OPTS'' d = Inr (JObj [(''x'', int_num 1)])"
  proof -
    have tok: "tokenize (''{'' @ DQ @ ''x'' @ DQ @ '':1}'') =
        Some [TLBrace, TString ''x'', TColon, TNumber (Finite False 1 0), TRBrace]"
      by (simp add: DQ_def isJSONWhiteSpace_def isDigit_def consChar_def lexNumber_def
          lexInteger_def lexFraction_def lexExponent_def mkFinite_def digitsValue_def
          digitValue_def)
    have "JSON_parse (''{'' @ DQ @ ''x'' @ DQ @ '':1}'') = Inr (JObj [(''x'', int_num 1)])"
      unfolding JSON_parse_def tok
      by (simp add: objectOf_def createDataProperty_def isArrayIndex_def isDigit_def int_num_def)
    moreover have "looksLikeJSON (''{'' @ DQ @ ''x'' @ DQ @ '':1}'')"
      by (simp add: looksLikeJSON_def startsWith_def endsWith_def DQ_def)
    ultimately show ?thesis
      by (simp add: scenario_def env_found env_try_json DQ_def)
  qed
  show ?thesis
    using port debug tags opts by blast
qed

theorem env_scenario_witness:
  "env scenario ''PORT'' JUndefined = Inr (int_num 8080) \<and>
   env scenario ''DEBUG'' JUndefined = Inr (JBool True) \<and>
   env scenario ''TAGS'' JUndefined = Inr (JStr ''a,b,c'') \<and>
   env scenario ''OPTS'' JUndefined = Inr (JObj [(''x'', int_num 1)])"
  by (rule env_scenario [of JUndefined])



text \<open>
  C5. \<^verbatim>\<open>safeStringify\<close> raises exactly when \<^verbatim>\<open>redactedWord\<close> is supplied (is not
  \<open>undefined\<close>) and is not a string that keeps something after trimming; what it
  raises then is always the error \<open>redactedWord must be a non-empty string\<close>, and
  it is raised whatever the value to serialize is, so before any serialization.
  No other error leaves the core: \<^verbatim>\<open>env\<close> raises nothing.
\<close>

theorem safeStringify_invalid_argument:
  "(safeStringify obj redactedWord = Inl e \<longleftrightarrow>
      redactedWord \<noteq> JUndefined \<and> (\<forall>w. redactedWord = JStr w \<longrightarrow> trim w = []) \<and>
      e = Error ''redactedWord must be a non-empty string'') \<and>
   (safeStringify obj redactedWord = Inl e \<longrightarrow> (\<forall>obj'. safeStringify obj' redactedWord = Inl e)) \<and>
   (\<forall>processEnv key d e'. env processEnv key d \<noteq> Inl e')"
proof -
  have iff: "safeStringify obj redactedWord = Inl e \<longleftrightarrow>
      redactedWord \<noteq> JUndefined \<and> (\<forall>w. redactedWord = JStr w \<longrightarrow> trim w = []) \<and>
      e = Error ''redactedWord must be a non-empty string''"
  proof (cases "validPattern redactedWord")
    case True
    then show ?thesis
      by (auto simp: safeStringify_valid validPattern_def)
  next
    case False
    then show ?thesis
      by (auto simp: safeStringify_invalid validPattern_def)
  qed
  have early: "safeStringify obj redactedWord = Inl e \<longrightarrow>
      (\<forall>obj'. safeStringify obj' redactedWord = Inl e)"
  proof (cases "validPattern redactedWord")
    case True
    then show ?thesis by (simp add: safeStringify_valid)
  next
    case False
    then show ?thesis by (simp add: safeStringify_invalid)
  qed
  have quiet: "\<forall>processEnv key d e'. env processEnv key d \<noteq> Inl e'"
  proof (intro allI)
    fix processEnv :: "string \<rightharpoonup> string" and key d e'
    show "env processEnv key d \<noteq> Inl e'"
    proof (cases "key = [] \<or> processEnv key = None \<or> processEnv key = Some []")
      case True
      then show ?thesis using env_default [of key processEnv d] by simp
    next
      case False
      then obtain val where "key \<noteq> []" "processEnv key = Some val" "val \<noteq> []"
        by auto
      then show ?thesis
        by (cases "env_try (JStr val) d") (simp_all add: env_found)
    qed
  qed
  show ?thesis
    using iff early quiet by blast
qed

theorem safeStringify_invalid_argument_witness:
  "safeStringify (JObj []) (JStr []) = Inl (Error ''redactedWord must be a non-empty string'') \<and>
   safeStringify (JObj []) (JStr ''   '') = Inl (Error ''redactedWord must be a non-empty string'') \<and>
   safeStringify (JObj []) JNull = Inl (Error ''redactedWord must be a non-empty string'') \<and>
   safeStringify (JObj []) (JStr ''KEY'') \<noteq> Inl (Error ''redactedWord must be a non-empty string'') \<and>
   safeStringify (JObj []) JUndefined \<noteq> Inl (Error ''redactedWord must be a non-empty string'')"
proof -
  have blank: "trim ''   '' = []" and key: "trim ''KEY'' \<noteq> []"
    by (simp_all add: trim_def isWhiteSpace_def)
  show ?thesis
    using safeStringify_invalid_argument [of "JObj []" "JStr []"
        "Error ''redactedWord must be a non-empty string''"]
      safeStringify_invalid_argument [of "JObj []" "JStr ''   ''"
        "Error ''redactedWord must be a non-empty string''"]
      safeStringify_invalid_argument [of "JObj []" JNull
        "Error ''redactedWord must be a non-empty string''"]
      safeStringify_invalid_argument [of "JObj []" "JStr ''KEY''"
        "Error ''redactedWord must be a non-empty string''"]
      safeStringify_invalid_argument [of "JObj []" JUndefined
        "Error ''redactedWord must be a non-empty string''"]
      blank key
    by (simp add: trim_Nil)
qed

text \<open>
  C10. The replacer is called for the elements of an array too, with the decimal
  index as key. So \<^verbatim>\<open>safeStringify(["a","b"], "1")\<close> prints the marker in place of
  the element at index 1, and in general an element whose index contains the
  extra pattern is replaced by the marker; \<open>SECRET\<close> and \<open>PASSWORD\<close> occur in no
  index.
\<close>

theorem array_index_redaction:
  "safeStringify (JArr [JStr ''a'', JStr ''b'']) (JStr ''1'') =
     Inr (Some (''['' @ NL @ ''  '' @ DQ @ ''a'' @ DQ @ '','' @ NL @
                ''  '' @ DQ @ ''[REDACTED]'' @ DQ @ NL @ '']'')) \<and>
   (\<forall>w gap indent xs i.
      w \<noteq> [] \<and> i < length xs \<and> includes_str (natToString i) w \<longrightarrow>
      SerializeJSONElements (RedactingReplacer (Some w)) gap indent 0 xs ! i =
        QuoteJSONString ''[REDACTED]'') \<and>
   (\<forall>i. \<not> includes_str (natToString i) ''SECRET'' \<and>
        \<not> includes_str (natToString i) ''PASSWORD'')"
proof -
  have valid: "validPattern (JStr ''1'')"
    by (simp add: validPattern_def trim_def isWhiteSpace_def)
  have example: "safeStringify (JArr [JStr ''a'', JStr ''b'']) (JStr ''1'') =
     Inr (Some (''['' @ NL @ ''  '' @ DQ @ ''a'' @ DQ @ '','' @ NL @
                ''  '' @ DQ @ ''[REDACTED]'' @ DQ @ NL @ '']''))"
    unfolding safeStringify_valid [OF valid]
    by (simp add: SerializeJSONProperty.simps replacer_def startsWith_def natToString.simps
        digitChar_def wrapJSON_def QuoteJSONString_def quoteChar_def DQ_def NL_def)
  have general: "\<forall>w gap indent xs i.
      w \<noteq> [] \<and> i < length xs \<and> includes_str (natToString i) w \<longrightarrow>
      SerializeJSONElements (RedactingReplacer (Some w)) gap indent 0 xs ! i =
        QuoteJSONString ''[REDACTED]''"
    by (auto simp: serialize_elements_nth serialize_sensitive sensitive_def)
  show ?thesis
    using example general index_not_builtin by blast
qed

theorem array_index_redaction_witness:
  "SerializeJSONElements (RedactingReplacer (Some ''1'')) ''  '' ''  '' 0 [JStr ''a'', JStr ''b''] ! 1 =
     QuoteJSONString ''[REDACTED]'' \<and>
   \<not> includes_str (natToString 1) ''SECRET''"
proof -
  have "''1'' \<noteq> [] \<and> 1 < length [JStr ''a'', JStr ''b''] \<and> includes_str (natToString 1) ''1''"
    by (simp add: natToString.simps digitChar_def startsWith_def)
  with array_index_redaction
  have "SerializeJSONElements (RedactingReplacer (Some ''1'')) ''  '' ''  '' 0
          [JStr ''a'', JStr ''b''] ! 1 = QuoteJSONString ''[REDACTED]''"
    by blast
  moreover from array_index_redaction
  have "\<not> includes_str (natToString 1) ''SECRET''"
    by blast
  ultimately show ?thesis
    by (rule conjI)
qed

text \<open>
  C1. With \<^verbatim>\<open>redactedWord\<close> absent or valid, the text that \<^verbatim>\<open>safeStringify\<close> returns for
  a value is the plain two-space serialization (no replacer) of the value in
  which, in every object at every depth, the value of each key that contains
  \<open>SECRET\<close>, \<open>PASSWORD\<close> or the extra pattern has been replaced by \<open>[REDACTED]\<close>. The
  decision looks at the key only: a sensitive key serializes to the marker for
  every value, at every indentation.
\<close>

theorem redaction_by_key:
  assumes "validPattern redactedWord"
  shows "safeStringify obj redactedWord =
      Inr (JSON_stringify (redactValue (patternOf redactedWord) obj) NoReplacer 2) \<and>
    (\<forall>key gap indent v. sensitive (patternOf redactedWord) key \<longrightarrow>
       SerializeJSONProperty (RedactingReplacer (patternOf redactedWord)) gap indent key v =
         Some (QuoteJSONString ''[REDACTED]''))"
proof -
  have p: "patternOf redactedWord \<noteq> Some []"
    using assms by (rule patternOf_valid)
  have "safeStringify obj redactedWord =
      Inr (JSON_stringify (redactValue (patternOf redactedWord) obj) NoReplacer 2)"
    using serialize_redacted(1) [OF p empty_key_not_sensitive [OF p]]
    by (simp add: safeStringify_valid [OF assms] JSON_stringify_def eval_nat_numeral)
  then show ?thesis
    using serialize_sensitive [OF p] by blast
qed

theorem redaction_by_key_witness:
  "safeStringify (JObj [(''nested'', JObj [(''USER_PASSWORD'', JStr ''p'')])]) JUndefined =
     Inr (JSON_stringify (JObj [(''nested'', JObj [(''USER_PASSWORD'', JStr ''[REDACTED]'')])])
            NoReplacer 2) \<and>
   safeStringify (JObj [(''nested'', JObj [(''USER_PASSWORD'', JStr ''p'')])]) JUndefined =
     Inr (Some (''{'' @ NL @ ''  '' @ DQ @ ''nested'' @ DQ @ '': {'' @ NL @
                ''    '' @ DQ @ ''USER_PASSWORD'' @ DQ @ '': '' @ DQ @ ''[REDACTED]'' @ DQ @ NL @
                ''  }'' @ NL @ ''}'')) \<and>
   safeStringify (JObj [(''API_SECRET'', int_num 7), (''normal'', JStr ''y'')]) (JStr ''KEY'') =
     Inr (JSON_stringify (JObj [(''API_SECRET'', JStr ''[REDACTED]''), (''normal'', JStr ''y'')])
            NoReplacer 2) \<and>
   safeStringify (JObj [(''password'', JStr ''x'')]) JUndefined =
     Inr (JSON_stringify (JObj [(''password'', JStr ''x'')]) NoReplacer 2) \<and>
   SerializeJSONProperty (RedactingReplacer (Some ''KEY'')) ''  '' [] ''API_KEY'' JNull =
     Some (QuoteJSONString ''[REDACTED]'')"
proof -
  have v1: "validPattern JUndefined" and v2: "validPattern (JStr ''KEY'')"
    by (simp_all add: validPattern_def trim_def isWhiteSpace_def)
  have s: "sensitive (patternOf (JStr ''KEY'')) ''API_KEY''"
    by (simp add: sensitive_def startsWith_def)
  have r1: "redactValue (patternOf JUndefined)
        (JObj [(''nested'', JObj [(''USER_PASSWORD'', JStr ''p'')])]) =
      JObj [(''nested'', JObj [(''USER_PASSWORD'', JStr ''[REDACTED]'')])]"
    by (simp add: sensitive_def startsWith_def marker_def)
  have r2: "redactValue (patternOf (JStr ''KEY''))
        (JObj [(''API_SECRET'', int_num 7), (''normal'', JStr ''y'')]) =
      JObj [(''API_SECRET'', JStr ''[REDACTED]''), (''normal'', JStr ''y'')]"
    by (simp add: sensitive_def startsWith_def marker_def int_num_def)
  have r3: "redactValue (patternOf JUndefined) (JObj [(''password'', JStr ''x'')]) =
      JObj [(''password'', JStr ''x'')]"
    by (simp add: sensitive_def startsWith_def)
  have t1: "JSON_stringify (JObj [(''nested'', JObj [(''USER_PASSWORD'', JStr ''[REDACTED]'')])])
        NoReplacer 2 =
      Some (''{'' @ NL @ ''  '' @ DQ @ ''nested'' @ DQ @ '': {'' @ NL @
            ''    '' @ DQ @ ''USER_PASSWORD'' @ DQ @ '': '' @ DQ @ ''[REDACTED]'' @ DQ @ NL @
            ''  }'' @ NL @ ''}'')"
    by (simp add: JSON_stringify_def eval_nat_numeral SerializeJSONProperty.simps wrapJSON_def
        QuoteJSONString_def quoteChar_def DQ_def NL_def)
  show ?thesis
    using redaction_by_key [OF v1, of "JObj [(''nested'', JObj [(''USER_PASSWORD'', JStr ''p'')])]"]
      redaction_by_key [OF v2, of "JObj [(''API_SECRET'', int_num 7), (''normal'', JStr ''y'')]"]
      redaction_by_key [OF v1, of "JObj [(''password'', JStr ''x'')]"]
      s r1 r2 r3 t1
    by simp
qed

text \<open>
  C9. The claim as stated fails on the value \<open>undefined\<close>: the replacer returns it
  unchanged under the empty key, and \<^verbatim>\<open>JSON.stringify\<close> then returns \<open>undefined\<close>, not
  a string.
\<close>

theorem safeStringify_undefined:
  "safeStringify JUndefined JUndefined = Inr None"
  by (simp add: safeStringify_def JSON_stringify_def SerializeJSONProperty.simps replacer_def)

text \<open>
  C9, amended. With \<^verbatim>\<open>redactedWord\<close> absent or valid, \<^verbatim>\<open>safeStringify\<close> returns a string
  for every value other than \<open>undefined\<close>: the text of \<^verbatim>\<open>JSON.stringify\<close> with a gap of
  two spaces, which is not empty and in which every new line starts with an even
  number of spaces followed by something else. For \<open>undefined\<close> it returns
  \<open>undefined\<close>.
\<close>

theorem safeStringify_returns_text:
  assumes "validPattern redactedWord"
  shows "(obj \<noteq> JUndefined \<longrightarrow>
      (\<exists>s. safeStringify obj redactedWord = Inr (Some s) \<and>
           JSON_stringify obj (RedactingReplacer (patternOf redactedWord)) 2 = Some s \<and>
           s \<noteq> [] \<and> evenlyIndented s)) \<and>
    (obj = JUndefined \<longrightarrow> safeStringify obj redactedWord = Inr None)"
proof -
  have p: "patternOf redactedWord \<noteq> Some []"
    using assms by (rule patternOf_valid)
  have root: "replacer (patternOf redactedWord) [] v = v" for v
    using empty_key_not_sensitive [OF p] by (simp add: replacer_sensitive [OF p])
  have js: "JSON_stringify obj (RedactingReplacer (patternOf redactedWord)) 2 =
      SerializeJSONProperty (RedactingReplacer (patternOf redactedWord)) ''  '' [] [] obj"
    by (simp add: JSON_stringify_def eval_nat_numeral)
  have undef: "obj = JUndefined \<longrightarrow> safeStringify obj redactedWord = Inr None"
    using root by (simp add: safeStringify_valid [OF assms] serialize_None)
  have str: "obj \<noteq> JUndefined \<longrightarrow>
      (\<exists>s. safeStringify obj redactedWord = Inr (Some s) \<and>
           JSON_stringify obj (RedactingReplacer (patternOf redactedWord)) 2 = Some s \<and>
           s \<noteq> [] \<and> evenlyIndented s)"
  proof
    assume "obj \<noteq> JUndefined"
    then have "SerializeJSONProperty (RedactingReplacer (patternOf redactedWord)) ''  '' [] [] obj
        \<noteq> None"
      using root by (simp add: serialize_None)
    then obtain s where s: "SerializeJSONProperty (RedactingReplacer (patternOf redactedWord))
        ''  '' [] [] obj = Some s"
      by blast
    have "solid s"
      using serialize_solid(1) [of "''  ''" "[]" 0, OF _ _ s] by simp
    then show "\<exists>s. safeStringify obj redactedWord = Inr (Some s) \<and>
           JSON_stringify obj (RedactingReplacer (patternOf redactedWord)) 2 = Some s \<and>
           s \<noteq> [] \<and> evenlyIndented s"
      using s js by (auto simp: safeStringify_valid [OF assms] solid_def)
  qed
  show ?thesis
    using str undef by blast
qed

theorem safeStringify_returns_text_witness:
  "safeStringify (JObj [(''user'', JStr ''nasr''), (''tags'', JArr [int_num 1, JNull])]) (JStr ''KEY'') =
     Inr (Some (''{'' @ NL @ ''  '' @ DQ @ ''user'' @ DQ @ '': '' @ DQ @ ''nasr'' @ DQ @ '','' @ NL @
                ''  '' @ DQ @ ''tags'' @ DQ @ '': ['' @ NL @
                ''    1,'' @ NL @
                ''    null'' @ NL @
                ''  ]'' @ NL @ ''}'')) \<and>
   (\<exists>s. safeStringify (JObj [(''user'', JStr ''nasr''), (''tags'', JArr [int_num 1, JNull])])
          (JStr ''KEY'') = Inr (Some s) \<and> s \<noteq> [] \<and> evenlyIndented s) \<and>
   safeStringify JUndefined (JStr ''KEY'') = Inr None"
proof -
  have v: "validPattern (JStr ''KEY'')"
    by (simp add: validPattern_def trim_def isWhiteSpace_def)
  have e: "safeStringify (JObj [(''user'', JStr ''nasr''), (''tags'', JArr [int_num 1, JNull])])
        (JStr ''KEY'') =
     Inr (Some (''{'' @ NL @ ''  '' @ DQ @ ''user'' @ DQ @ '': '' @ DQ @ ''nasr'' @ DQ @ '','' @ NL @
                ''  '' @ DQ @ ''tags'' @ DQ @ '': ['' @ NL @
                ''    1,'' @ NL @
                ''    null'' @ NL @
                ''  ]'' @ NL @ ''}''))"
    unfolding safeStringify_valid [OF v]
    by (simp add: SerializeJSONProperty.simps replacer_def startsWith_def natToString.simps
        digitChar_def wrapJSON_def QuoteJSONString_def quoteChar_def DQ_def NL_def int_num_def
        isFiniteNumber_def NumberToString_def stripTrailingZeros_def)
  have d: "JObj [(''user'', JStr ''nasr''), (''tags'', JArr [int_num 1, JNull])] \<noteq> JUndefined"
    by simp
  show ?thesis
    using safeStringify_returns_text [OF v,
        of "JObj [(''user'', JStr ''nasr''), (''tags'', JArr [int_num 1, JNull])]"]
      safeStringify_returns_text [OF v, of JUndefined] e d
    by auto
qed

end
